theory Spec2Isabelle
  imports Complex_Main "HOL-Library.Word"
begin

section \<open>The orthographic sphere tracer\<close>

text \<open>
  A shallow embedding of \<^verbatim>\<open>rt.original/rt/rt/rt.cpp\<close> (scene generator, quadratic solver,
  ray-sphere intersector, per-pixel scan and the two pixel loops of \<^verbatim>\<open>trace\<close>) and of the
  scene generator of \<^verbatim>\<open>rt.reworked/rt.cpp\<close>.

  Numbers. The program computes in the C++ \<^verbatim>\<open>float\<close>, and the solver and the intersector
  are embedded twice. \<open>solve_quadratic32\<close> and \<open>intersect_sphere32\<close> compute on IEEE 754
  binary32 values, with rounding, signed zeros, infinities and NaN; what the two functions
  return for an arbitrary input is settled on them. \<open>solve_quadratic\<close> and
  \<open>intersect_sphere\<close> idealise \<^verbatim>\<open>float\<close> as \<^typ>\<open>real\<close>: every operation is exact, and where
  the source divides by zero, in \<^verbatim>\<open>1 / (2 * a)\<close> at \<open>a = 0\<close> (binary32 answers with an
  infinity, and the roots become NaN), the idealised solver stops with
  \<open>Inl DivisionByZero\<close>, and every caller hands the fault on. The scan, the trace driver
  and the generators are built on the idealised functions. Loop counters are natural
  numbers; the conversion of the unsigned sphere counter to the signed \<^verbatim>\<open>int idx\<close> is
  written out on 32-bit words.
\<close>

subsection \<open>Single-precision arithmetic\<close>

text \<open>
  Rounding. \<open>rhe\<close> rounds a real to the nearest integer, a tie to the even one. \<open>expo x\<close> is
  the exponent of the binade of \<open>x\<close>, held at \<open>- 126\<close> from below (the subnormal numbers
  share the exponent of the smallest normal ones), \<open>quantum x\<close> the distance between
  neighbouring binary32 numbers there (24 bits of significand), and \<open>rnd x\<close> the multiple of
  the quantum nearest to \<open>x\<close>.
\<close>

definition rhe :: "real \<Rightarrow> int" where
  "rhe q =
     (let f = \<lfloor>q\<rfloor> in
      if q - of_int f < 1 / 2 then f
      else if q - of_int f > 1 / 2 then f + 1
      else if even f then f else f + 1)"

definition expo :: "real \<Rightarrow> int" where
  "expo x = max \<lfloor>log 2 \<bar>x\<bar>\<rfloor> (- 126)"

definition quantum :: "real \<Rightarrow> real" where
  "quantum x = 2 powi (expo x - 23)"

definition rnd :: "real \<Rightarrow> real" where
  "rnd x = (if x = 0 then 0 else quantum x * of_int (rhe (x / quantum x)))"

text \<open>
  Values. A binary32 value is a finite number (\<open>Fin 0\<close> is the positive zero), the negative
  zero, an infinity or a NaN; one value stands for all NaNs, whose payload the program never
  reads. \<open>pack neg x\<close> is the value an operation returns for the exact result \<open>x\<close>: \<open>x\<close>
  rounded, an infinity when the rounded magnitude reaches \<open>2\<^sup>1\<^sup>2\<^sup>8\<close>, and a zero
  with the sign of \<open>x\<close>, or with the sign \<open>neg\<close> when \<open>x\<close> itself is zero. Every operation
  rounds once; no intermediate result is kept in a wider format and no product is fused
  with a sum.
\<close>

datatype f32 = Fin real | NegZero | PInf | NInf | NaN

definition pack :: "bool \<Rightarrow> real \<Rightarrow> f32" where
  "pack neg x =
     (let y = rnd x in
      if 2 ^ 128 \<le> y then PInf
      else if y \<le> - (2 ^ 128) then NInf
      else if y = 0 then (if x < 0 \<or> (x = 0 \<and> neg) then NegZero else Fin 0)
      else Fin y)"

fun val :: "f32 \<Rightarrow> real" where
  "val (Fin x) = x"
| "val x = 0"

fun negative :: "f32 \<Rightarrow> bool" where
  "negative (Fin x) = (x < 0)"
| "negative NegZero = True"
| "negative NInf = True"
| "negative x = False"

fun is_inf :: "f32 \<Rightarrow> bool" where
  "is_inf PInf = True"
| "is_inf NInf = True"
| "is_inf x = False"

fun is_zero :: "f32 \<Rightarrow> bool" where
  "is_zero (Fin x) = (x = 0)"
| "is_zero NegZero = True"
| "is_zero x = False"

text \<open>
  The comparisons \<^verbatim>\<open><\<close>, \<^verbatim>\<open><=\<close> and \<^verbatim>\<open>>\<close>: false as soon as one side is a NaN; the two zeros
  compare equal.
\<close>

fun flt :: "f32 \<Rightarrow> f32 \<Rightarrow> bool" where
  "flt NaN y = False"
| "flt x NaN = False"
| "flt PInf y = False"
| "flt x NInf = False"
| "flt NInf y = True"
| "flt x PInf = True"
| "flt x y = (val x < val y)"

fun fle :: "f32 \<Rightarrow> f32 \<Rightarrow> bool" where
  "fle NaN y = False"
| "fle x NaN = False"
| "fle NInf y = True"
| "fle x PInf = True"
| "fle PInf y = False"
| "fle x NInf = False"
| "fle x y = (val x \<le> val y)"

definition fgt :: "f32 \<Rightarrow> f32 \<Rightarrow> bool" where
  "fgt x y = flt y x"

text \<open>
  Unary minus, \<^verbatim>\<open>+\<close>, \<^verbatim>\<open>-\<close>, \<^verbatim>\<open>*\<close>, \<^verbatim>\<open>/\<close> and \<^verbatim>\<open>std::sqrt\<close> on \<^verbatim>\<open>float\<close>.
\<close>

fun fneg :: "f32 \<Rightarrow> f32" where
  "fneg (Fin x) = (if x = 0 then NegZero else Fin (- x))"
| "fneg NegZero = Fin 0"
| "fneg PInf = NInf"
| "fneg NInf = PInf"
| "fneg NaN = NaN"

fun fadd :: "f32 \<Rightarrow> f32 \<Rightarrow> f32" where
  "fadd NaN y = NaN"
| "fadd x NaN = NaN"
| "fadd PInf NInf = NaN"
| "fadd NInf PInf = NaN"
| "fadd PInf y = PInf"
| "fadd x PInf = PInf"
| "fadd NInf y = NInf"
| "fadd x NInf = NInf"
| "fadd x y = pack (x = NegZero \<and> y = NegZero) (val x + val y)"

definition fsub :: "f32 \<Rightarrow> f32 \<Rightarrow> f32" where
  "fsub x y = fadd x (fneg y)"

definition fmul :: "f32 \<Rightarrow> f32 \<Rightarrow> f32" where
  "fmul x y =
     (if x = NaN \<or> y = NaN then NaN
      else if is_inf x \<or> is_inf y then
        (if is_zero x \<or> is_zero y then NaN
         else if negative x \<noteq> negative y then NInf else PInf)
      else pack (negative x \<noteq> negative y) (val x * val y))"

definition fdiv :: "f32 \<Rightarrow> f32 \<Rightarrow> f32" where
  "fdiv x y =
     (if x = NaN \<or> y = NaN then NaN
      else if is_inf x then
        (if is_inf y then NaN else if negative x \<noteq> negative y then NInf else PInf)
      else if is_inf y then (if negative x \<noteq> negative y then NegZero else Fin 0)
      else if is_zero y then
        (if is_zero x then NaN else if negative x \<noteq> negative y then NInf else PInf)
      else pack (negative x \<noteq> negative y) (val x / val y))"

fun fsqrt :: "f32 \<Rightarrow> f32" where
  "fsqrt (Fin x) = (if x < 0 then NaN else Fin (rnd (sqrt x)))"
| "fsqrt NegZero = NegZero"
| "fsqrt PInf = PInf"
| "fsqrt NInf = NaN"
| "fsqrt NaN = NaN"

text \<open>
  The conversion of an \<^verbatim>\<open>int\<close> operand to \<^verbatim>\<open>float\<close>.
\<close>

definition f32_of_int :: "int \<Rightarrow> f32" where
  "f32_of_int n = pack False (of_int n)"

subsection \<open>Quadratic solver\<close>

datatype fault = DivisionByZero

text \<open>
  \<^verbatim>\<open>bool solve_quadratic(float a, float b, float c, float& x1, float& x2)\<close>, lines 76-89.
  \<open>Inr None\<close> is the return of \<^verbatim>\<open>false\<close> (the out-parameters are left undefined by the source),
  \<open>Inr (Some (x1, x2))\<close> the return of \<^verbatim>\<open>true\<close> with both out-parameters written.
\<close>

definition solve_quadratic :: "real \<Rightarrow> real \<Rightarrow> real \<Rightarrow> fault + (real \<times> real) option" where
  "solve_quadratic a b c =
     (let d = b * b - 4 * a * c in
      if d < 0 then Inr None
      else if 2 * a = 0 then Inl DivisionByZero
      else
        (let den = 1 / (2 * a);
             x1 = (- b - sqrt d) * den;
             x2 = (- b + sqrt d) * den
         in Inr (Some (x1, x2))))"

text \<open>
  The same function on binary32 values. It has no fault: a division by zero gives an
  infinity or a NaN. \<open>None\<close> is the return of \<^verbatim>\<open>false\<close>, \<open>Some (x1, x2)\<close> the return of \<^verbatim>\<open>true\<close>.
\<close>

definition solve_quadratic32 :: "f32 \<Rightarrow> f32 \<Rightarrow> f32 \<Rightarrow> (f32 \<times> f32) option" where
  "solve_quadratic32 a b c =
     (let d = fsub (fmul b b) (fmul (fmul (f32_of_int 4) a) c) in
      if flt d (f32_of_int 0) then None
      else
        (let den = fdiv (f32_of_int 1) (fmul (f32_of_int 2) a);
             x1 = fmul (fsub (fneg b) (fsqrt d)) den;
             x2 = fmul (fadd (fneg b) (fsqrt d)) den
         in Some (x1, x2)))"

subsection \<open>Data\<close>

record ray =
  ox :: real
  oy :: real
  oz :: real
  dx :: real
  dy :: real
  dz :: real
  maxt :: real

record sphere =
  cx :: real
  cy :: real
  cz :: real
  radius :: real
  r :: real
  g :: real
  b :: real

definition kImageWidth :: nat where "kImageWidth = 2048"
definition kImageHeight :: nat where "kImageHeight = 2048"
definition kNumSpheres :: nat where "kNumSpheres = 512"

definition LEFT :: real where "LEFT = - 10"
definition BOTTOM :: real where "BOTTOM = - 10"
definition WIDTH :: real where "WIDTH = 20"
definition HEIGHT :: real where "HEIGHT = 20"
definition NEAR :: real where "NEAR = - 10"
definition FAR :: real where "FAR = 10"

subsection \<open>Ray-sphere intersection\<close>

text \<open>
  \<^verbatim>\<open>bool intersect_sphere(sphere const& sphere, ray& r)\<close>, lines 95-118. The result pairs the
  returned flag with the ray as the call leaves it. The local copy \<^verbatim>\<open>rtemp\<close> has its origin
  moved into the sphere's frame; the tests and the update are on the caller's ray.
\<close>

definition intersect_sphere :: "sphere \<Rightarrow> ray \<Rightarrow> fault + (bool \<times> ray)" where
  "intersect_sphere sph ry =
     (let rtemp = ry\<lparr>ox := ox ry - cx sph, oy := oy ry - cy sph, oz := oz ry - cz sph\<rparr>;
          a = dx rtemp * dx rtemp + dy rtemp * dy rtemp + dz rtemp * dz rtemp;
          b = 2 * (ox rtemp * dx rtemp + oy rtemp * dy rtemp + oz rtemp * dz rtemp);
          c = ox rtemp * ox rtemp + oy rtemp * oy rtemp + oz rtemp * oz rtemp
              - radius sph * radius sph
      in case solve_quadratic a b c of
           Inl e \<Rightarrow> Inl e
         | Inr None \<Rightarrow> Inr (False, ry)
         | Inr (Some (t0, t1)) \<Rightarrow>
             if t0 > maxt ry \<or> t1 < 0 then Inr (False, ry)
             else Inr (True, ry\<lparr>maxt := (if t0 > 0 then t0 else t1)\<rparr>))"

text \<open>
  The same structures and the same function on binary32 values. The result pairs the
  returned flag with the ray as the call leaves it; there is no fault.
\<close>

record ray32 =
  ox32 :: f32
  oy32 :: f32
  oz32 :: f32
  dx32 :: f32
  dy32 :: f32
  dz32 :: f32
  maxt32 :: f32

record sphere32 =
  cx32 :: f32
  cy32 :: f32
  cz32 :: f32
  radius32 :: f32
  r32 :: f32
  g32 :: f32
  b32 :: f32

definition intersect_sphere32 :: "sphere32 \<Rightarrow> ray32 \<Rightarrow> bool \<times> ray32" where
  "intersect_sphere32 sph ry =
     (let rtemp = ry\<lparr>ox32 := fsub (ox32 ry) (cx32 sph), oy32 := fsub (oy32 ry) (cy32 sph),
                       oz32 := fsub (oz32 ry) (cz32 sph)\<rparr>;
          a = fadd (fadd (fmul (dx32 rtemp) (dx32 rtemp)) (fmul (dy32 rtemp) (dy32 rtemp)))
                (fmul (dz32 rtemp) (dz32 rtemp));
          b = fmul (f32_of_int 2)
                (fadd (fadd (fmul (ox32 rtemp) (dx32 rtemp)) (fmul (oy32 rtemp) (dy32 rtemp)))
                   (fmul (oz32 rtemp) (dz32 rtemp)));
          c = fsub
                (fadd (fadd (fmul (ox32 rtemp) (ox32 rtemp)) (fmul (oy32 rtemp) (oy32 rtemp)))
                   (fmul (oz32 rtemp) (oz32 rtemp)))
                (fmul (radius32 sph) (radius32 sph))
      in case solve_quadratic32 a b c of
           None \<Rightarrow> (False, ry)
         | Some (t0, t1) \<Rightarrow>
             if fgt t0 (maxt32 ry) \<or> flt t1 (Fin 0) then (False, ry)
             else (True, ry\<lparr>maxt32 := (if fgt t0 (Fin 0) then t0 else t1)\<rparr>))"

subsection \<open>The per-pixel scan\<close>

text \<open>
  The implicit conversion of \<^verbatim>\<open>idx = k\<close> (line 143): the counter is an \<^verbatim>\<open>unsigned int\<close>, the
  index an \<^verbatim>\<open>int\<close>, both 32 bits wide.
\<close>

definition int_of_uint :: "nat \<Rightarrow> int" where
  "int_of_uint k = sint (word_of_nat k :: 32 word)"

text \<open>
  The camera ray of pixel \<open>(i, j)\<close>, lines 129-135 of \<^verbatim>\<open>trace\<close>.
\<close>

definition pixel_ray :: "nat \<Rightarrow> nat \<Rightarrow> ray" where
  "pixel_ray i j =
     \<lparr>ox = LEFT + (WIDTH / real kImageWidth) * (real i + 0.5),
      oy = BOTTOM + (HEIGHT / real kImageHeight) * (real j + 0.5),
      oz = NEAR,
      dx = 0, dy = 0, dz = 1,
      maxt = FAR - NEAR\<rparr>"

text \<open>
  The loop over the spheres, lines 139-145. The array \<^verbatim>\<open>spheres\<close> with its length
  \<^verbatim>\<open>num_spheres\<close> is a list; \<open>scan rest k ry idx\<close> runs the iterations \<open>k, k + 1, \<dots>\<close> on the
  spheres still to visit, from the ray and the index the earlier iterations left.
\<close>

fun scan :: "sphere list \<Rightarrow> nat \<Rightarrow> ray \<Rightarrow> int \<Rightarrow> fault + (int \<times> ray)" where
  "scan [] k ry idx = Inr (idx, ry)"
| "scan (sph # rest) k ry idx =
     (case intersect_sphere sph ry of
        Inl e \<Rightarrow> Inl e
      | Inr (hit, ry') \<Rightarrow> scan rest (Suc k) ry' (if hit then int_of_uint k else idx))"

subsection \<open>The trace driver\<close>

text \<open>
  The output buffer \<^verbatim>\<open>float* img\<close> is the memory behind the pointer, read by offset.
\<close>

type_synonym image = "nat \<Rightarrow> real"

text \<open>
  The body of the two pixel loops, lines 129-158: cast the ray, scan the spheres, write the
  three channels at \<^verbatim>\<open>(j * kImageWidth + i) * 3\<close>.
\<close>

definition trace_pixel :: "sphere list \<Rightarrow> nat \<Rightarrow> nat \<Rightarrow> image \<Rightarrow> fault + image" where
  "trace_pixel spheres i j img =
     (case scan spheres 0 (pixel_ray i j) (- 1) of
        Inl e \<Rightarrow> Inl e
      | Inr (idx, ry) \<Rightarrow>
          if idx > 0 then
            Inr (img((j * kImageWidth + i) * 3 := r (spheres ! nat idx),
                     (j * kImageWidth + i) * 3 + 1 := g (spheres ! nat idx),
                     (j * kImageWidth + i) * 3 + 2 := b (spheres ! nat idx)))
          else
            Inr (img((j * kImageWidth + i) * 3 := 0.1,
                     (j * kImageWidth + i) * 3 + 1 := 0.1,
                     (j * kImageWidth + i) * 3 + 2 := 0.1)))"

text \<open>The inner loop over \<open>j\<close> (line 127) and the outer loop over \<open>i\<close> (line 125).\<close>

function trace_j :: "sphere list \<Rightarrow> nat \<Rightarrow> nat \<Rightarrow> image \<Rightarrow> fault + image" where
  "trace_j spheres i j img =
     (if j < kImageHeight then
        (case trace_pixel spheres i j img of
           Inl e \<Rightarrow> Inl e
         | Inr img' \<Rightarrow> trace_j spheres i (Suc j) img')
      else Inr img)"
  by pat_completeness auto
termination
  by (relation "measure (\<lambda>(spheres, i, j, img). kImageHeight - j)") auto

function trace_i :: "sphere list \<Rightarrow> nat \<Rightarrow> image \<Rightarrow> fault + image" where
  "trace_i spheres i img =
     (if i < kImageWidth then
        (case trace_j spheres i 0 img of
           Inl e \<Rightarrow> Inl e
         | Inr img' \<Rightarrow> trace_i spheres (Suc i) img')
      else Inr img)"
  by pat_completeness auto
termination
  by (relation "measure (\<lambda>(spheres, i, img). kImageWidth - i)") auto

text \<open>\<^verbatim>\<open>void trace(sphere const* spheres, std::uint32_t num_spheres, float* img)\<close>, line 123.\<close>

definition trace :: "sphere list \<Rightarrow> image \<Rightarrow> fault + image" where
  "trace spheres img = trace_i spheres 0 img"

subsection \<open>The C library's generator\<close>

text \<open>
  \<^verbatim>\<open>std::srand\<close>, \<^verbatim>\<open>std::rand\<close> and \<^verbatim>\<open>RAND_MAX\<close> belong to the C library, not to the
  repository: they are a parameter of the model. The hidden state of the library is the
  type \<open>'g\<close>; \<open>srand\<close> gives the state a seed leaves, \<open>rand\<close> the value drawn and the state
  after the draw.
\<close>

record 'g crand =
  RAND_MAX :: int
  srand :: "nat \<Rightarrow> 'g"
  rand :: "'g \<Rightarrow> int \<times> 'g"

text \<open>The seed of both programs (line 59 of the original, line 121 of the reworked one).\<close>

definition seed :: nat where "seed = 0x88e8fff4"

subsection \<open>Scene generator, original\<close>

text \<open>\<^verbatim>\<open>#define RAND_FLOAT (((float)std::rand()) / RAND_MAX)\<close>, line 48.\<close>

definition RAND_FLOAT :: "'g crand \<Rightarrow> 'g \<Rightarrow> real \<times> 'g" where
  "RAND_FLOAT L gs = (case rand L gs of (x, gs') \<Rightarrow> (real_of_int x / real_of_int (RAND_MAX L), gs'))"

text \<open>
  The loop of \<^verbatim>\<open>generate_spheres\<close>, lines 61-70: seven assignments to the fields of
  \<^verbatim>\<open>spheres[i]\<close>, each with one draw. The caller's array is updated in place.
\<close>

function generate_loop :: "'g crand \<Rightarrow> nat \<Rightarrow> nat \<Rightarrow> sphere list \<Rightarrow> 'g \<Rightarrow> sphere list \<times> 'g" where
  "generate_loop L num_spheres i spheres gs =
     (if i < num_spheres then
        (let (u, gs) = RAND_FLOAT L gs;
             spheres = spheres[i := (spheres ! i)\<lparr>cx := u * 20 - 10\<rparr>];
             (u, gs) = RAND_FLOAT L gs;
             spheres = spheres[i := (spheres ! i)\<lparr>cy := u * 20 - 10\<rparr>];
             (u, gs) = RAND_FLOAT L gs;
             spheres = spheres[i := (spheres ! i)\<lparr>cz := u * 20 - 5\<rparr>];
             (u, gs) = RAND_FLOAT L gs;
             spheres = spheres[i := (spheres ! i)\<lparr>radius := (u + 0.1) * 1.5\<rparr>];
             (u, gs) = RAND_FLOAT L gs;
             spheres = spheres[i := (spheres ! i)\<lparr>r := u\<rparr>];
             (u, gs) = RAND_FLOAT L gs;
             spheres = spheres[i := (spheres ! i)\<lparr>g := u\<rparr>];
             (u, gs) = RAND_FLOAT L gs;
             spheres = spheres[i := (spheres ! i)\<lparr>b := u\<rparr>]
         in generate_loop L num_spheres (Suc i) spheres gs)
      else (spheres, gs))"
  by pat_completeness auto
termination
  by (relation "measure (\<lambda>(L, num_spheres, i, spheres, gs). num_spheres - i)") auto

text \<open>
  \<^verbatim>\<open>void generate_spheres(sphere* spheres, std::uint32_t num_spheres)\<close>, lines 57-71. The
  call reseeds the library, so the state it finds is of no account; the array and the state
  it leaves are returned.
\<close>

definition generate_spheres :: "'g crand \<Rightarrow> sphere list \<Rightarrow> nat \<Rightarrow> sphere list \<times> 'g" where
  "generate_spheres L spheres num_spheres = generate_loop L num_spheres 0 spheres (srand L seed)"

subsection \<open>Scene generator, reworked\<close>

text \<open>\<^verbatim>\<open>float sphere::rand_float()\<close>, lines 52-55 of \<^verbatim>\<open>rt.reworked/rt.cpp\<close>.\<close>

definition rand_float :: "'g crand \<Rightarrow> 'g \<Rightarrow> real \<times> 'g" where
  "rand_float L gs =
     (case rand L gs of (x, gs') \<Rightarrow> (real_of_int x / real_of_int (RAND_MAX L), gs'))"

text \<open>The default constructor \<^verbatim>\<open>sphere::sphere()\<close>, lines 65-74.\<close>

definition sphere_ctor :: "'g crand \<Rightarrow> 'g \<Rightarrow> sphere \<times> 'g" where
  "sphere_ctor L gs =
     (let (u1, gs) = rand_float L gs;
          (u2, gs) = rand_float L gs;
          (u3, gs) = rand_float L gs;
          (u4, gs) = rand_float L gs;
          (u5, gs) = rand_float L gs;
          (u6, gs) = rand_float L gs;
          (u7, gs) = rand_float L gs
      in (\<lparr>cx = u1 * 20 - 10, cy = u2 * 20 - 10, cz = u3 * 20 - 5,
           radius = (u4 + 0.1) * 1.5, r = u5, g = u6, b = u7\<rparr>, gs))"

text \<open>
  \<^verbatim>\<open>void generate_spheres(std::vector<sphere>& spheres)\<close>, lines 78-84. The vector is the list
  of its elements together with its capacity; \<^verbatim>\<open>emplace_back\<close> appends a sphere built by the
  default constructor. The program calls it on an empty vector whose capacity was reserved
  (lines 123-126): no call of \<^verbatim>\<open>emplace_back\<close> then exceeds the capacity, which stays what it
  was.
\<close>

function generate_spheres_reworked ::
  "'g crand \<Rightarrow> nat \<Rightarrow> nat \<Rightarrow> sphere list \<Rightarrow> 'g \<Rightarrow> sphere list \<times> 'g" where
  "generate_spheres_reworked L capacity i spheres gs =
     (if i < capacity then
        (case sphere_ctor L gs of
           (sph, gs') \<Rightarrow> generate_spheres_reworked L capacity (Suc i) (spheres @ [sph]) gs')
      else (spheres, gs))"
  by pat_completeness auto
termination
  by (relation "measure (\<lambda>(L, capacity, i, spheres, gs). capacity - i)") auto

text \<open>
  Lines 121-126 of the reworked \<^verbatim>\<open>main\<close>: seed, reserve, generate. The count
  \<^verbatim>\<open>kNumSpheres\<close> is the argument \<open>n\<close>.
\<close>

definition reworked_scene :: "'g crand \<Rightarrow> nat \<Rightarrow> sphere list \<times> 'g" where
  "reworked_scene L n = generate_spheres_reworked L n 0 [] (srand L seed)"


subsection \<open>Notions of the specification\<close>

text \<open>
  The coefficients of the quadratic in the words of the specification: the squared length of
  the direction, twice the inner product of the translated origin with the direction, and
  the squared length of the translated origin less the squared radius.
\<close>

definition coeff_a :: "ray \<Rightarrow> real" where
  "coeff_a ry = (dx ry)\<^sup>2 + (dy ry)\<^sup>2 + (dz ry)\<^sup>2"

definition coeff_b :: "sphere \<Rightarrow> ray \<Rightarrow> real" where
  "coeff_b sph ry =
     2 * ((ox ry - cx sph) * dx ry + (oy ry - cy sph) * dy ry + (oz ry - cz sph) * dz ry)"

definition coeff_c :: "sphere \<Rightarrow> ray \<Rightarrow> real" where
  "coeff_c sph ry =
     (ox ry - cx sph)\<^sup>2 + (oy ry - cy sph)\<^sup>2 + (oz ry - cz sph)\<^sup>2 - (radius sph)\<^sup>2"

text \<open>
  The same coefficients as the program computes them, each operation rounded to binary32,
  in the order of the source. \<open>discriminant32\<close> is the discriminant computed from rounded
  products, \<open>root_lo32\<close> and \<open>root_hi32\<close> the two roots computed from it.
\<close>

definition dot32 :: "f32 \<times> f32 \<times> f32 \<Rightarrow> f32 \<times> f32 \<times> f32 \<Rightarrow> f32" where
  "dot32 u v =
     (case u of (u1, u2, u3) \<Rightarrow> case v of (v1, v2, v3) \<Rightarrow>
        fadd (fadd (fmul u1 v1) (fmul u2 v2)) (fmul u3 v3))"

definition direction32 :: "ray32 \<Rightarrow> f32 \<times> f32 \<times> f32" where
  "direction32 ry = (dx32 ry, dy32 ry, dz32 ry)"

definition origin32 :: "sphere32 \<Rightarrow> ray32 \<Rightarrow> f32 \<times> f32 \<times> f32" where
  "origin32 sph ry =
     (fsub (ox32 ry) (cx32 sph), fsub (oy32 ry) (cy32 sph), fsub (oz32 ry) (cz32 sph))"

definition coeff_a32 :: "ray32 \<Rightarrow> f32" where
  "coeff_a32 ry = dot32 (direction32 ry) (direction32 ry)"

definition coeff_b32 :: "sphere32 \<Rightarrow> ray32 \<Rightarrow> f32" where
  "coeff_b32 sph ry = fmul (Fin 2) (dot32 (origin32 sph ry) (direction32 ry))"

definition coeff_c32 :: "sphere32 \<Rightarrow> ray32 \<Rightarrow> f32" where
  "coeff_c32 sph ry =
     fsub (dot32 (origin32 sph ry) (origin32 sph ry)) (fmul (radius32 sph) (radius32 sph))"

definition discriminant32 :: "f32 \<Rightarrow> f32 \<Rightarrow> f32 \<Rightarrow> f32" where
  "discriminant32 qa qb qc = fsub (fmul qb qb) (fmul (fmul (Fin 4) qa) qc)"

definition root_lo32 :: "f32 \<Rightarrow> f32 \<Rightarrow> f32 \<Rightarrow> f32" where
  "root_lo32 qa qb qc =
     fmul (fsub (fneg qb) (fsqrt (discriminant32 qa qb qc))) (fdiv (Fin 1) (fmul (Fin 2) qa))"

definition root_hi32 :: "f32 \<Rightarrow> f32 \<Rightarrow> f32 \<Rightarrow> f32" where
  "root_hi32 qa qb qc =
     fmul (fadd (fneg qb) (fsqrt (discriminant32 qa qb qc))) (fdiv (Fin 1) (fmul (Fin 2) qa))"

text \<open>
  The discriminant and the two roots that a call of the intersector computes for a sphere
  and a ray.
\<close>

definition ray_discriminant32 :: "sphere32 \<Rightarrow> ray32 \<Rightarrow> f32" where
  "ray_discriminant32 sph ry =
     discriminant32 (coeff_a32 ry) (coeff_b32 sph ry) (coeff_c32 sph ry)"

definition ray_t0 :: "sphere32 \<Rightarrow> ray32 \<Rightarrow> f32" where
  "ray_t0 sph ry = root_lo32 (coeff_a32 ry) (coeff_b32 sph ry) (coeff_c32 sph ry)"

definition ray_t1 :: "sphere32 \<Rightarrow> ray32 \<Rightarrow> f32" where
  "ray_t1 sph ry = root_hi32 (coeff_a32 ry) (coeff_b32 sph ry) (coeff_c32 sph ry)"

text \<open>
  The reals that are binary32 numbers, and a ray and a sphere of reals read as binary32
  structures.
\<close>

definition is_float :: "real \<Rightarrow> bool" where
  "is_float x = (rnd x = x \<and> \<bar>x\<bar> < 2 ^ 128)"

definition is_float_ray :: "ray \<Rightarrow> bool" where
  "is_float_ray ry \<longleftrightarrow>
     is_float (ox ry) \<and> is_float (oy ry) \<and> is_float (oz ry) \<and>
     is_float (dx ry) \<and> is_float (dy ry) \<and> is_float (dz ry) \<and> is_float (maxt ry)"

definition is_float_sphere :: "sphere \<Rightarrow> bool" where
  "is_float_sphere sph \<longleftrightarrow>
     is_float (cx sph) \<and> is_float (cy sph) \<and> is_float (cz sph) \<and> is_float (radius sph) \<and>
     is_float (r sph) \<and> is_float (g sph) \<and> is_float (b sph)"

definition ray32_of :: "ray \<Rightarrow> ray32" where
  "ray32_of ry =
     \<lparr>ox32 = Fin (ox ry), oy32 = Fin (oy ry), oz32 = Fin (oz ry),
      dx32 = Fin (dx ry), dy32 = Fin (dy ry), dz32 = Fin (dz ry), maxt32 = Fin (maxt ry)\<rparr>"

definition sphere32_of :: "sphere \<Rightarrow> sphere32" where
  "sphere32_of sph =
     \<lparr>cx32 = Fin (cx sph), cy32 = Fin (cy sph), cz32 = Fin (cz sph),
      radius32 = Fin (radius sph), r32 = Fin (r sph), g32 = Fin (g sph), b32 = Fin (b sph)\<rparr>"

text \<open>
  The accepted hits of a scan, in scan order: the index of each sphere for which
  \<open>intersect_sphere\<close> returned \<^verbatim>\<open>true\<close>, with the distance the call wrote to \<^verbatim>\<open>maxt\<close>.
\<close>

fun scan_hits :: "sphere list \<Rightarrow> nat \<Rightarrow> ray \<Rightarrow> (nat \<times> real) list" where
  "scan_hits [] k ry = []"
| "scan_hits (sph # rest) k ry =
     (case intersect_sphere sph ry of
        Inl e \<Rightarrow> []
      | Inr (hit, ry') \<Rightarrow> (if hit then [(k, maxt ry')] else []) @ scan_hits rest (Suc k) ry')"

text \<open>The three channels of pixel \<open>(i, j)\<close> in a buffer, at its row-major offset.\<close>

definition pixel_at :: "image \<Rightarrow> nat \<Rightarrow> nat \<Rightarrow> real \<times> real \<times> real" where
  "pixel_at img i j =
     (img ((j * kImageWidth + i) * 3),
      img ((j * kImageWidth + i) * 3 + 1),
      img ((j * kImageWidth + i) * 3 + 2))"

definition background :: "real \<times> real \<times> real" where
  "background = (0.1, 0.1, 0.1)"

definition color :: "sphere \<Rightarrow> real \<times> real \<times> real" where
  "color sph = (r sph, g sph, b sph)"

text \<open>Channel \<open>c\<close> of what the loop body writes for pixel \<open>(i, j)\<close>.\<close>

definition pixel_value :: "sphere list \<Rightarrow> nat \<Rightarrow> nat \<Rightarrow> nat \<Rightarrow> real" where
  "pixel_value spheres i j c =
     (case trace_pixel spheres i j (\<lambda>p. 0) of
        Inl e \<Rightarrow> 0
      | Inr img \<Rightarrow> img ((j * kImageWidth + i) * 3 + c))"

text \<open>
  The generator in the words of the specification: the uniform values are the draws divided
  by \<^verbatim>\<open>RAND_MAX\<close>, in the order drawn; each sphere takes seven of them, for \<open>cx\<close>, \<open>cy\<close>,
  \<open>cz\<close>, \<open>radius\<close>, \<open>r\<close>, \<open>g\<close>, \<open>b\<close> in this order; the spheres come in index order.
\<close>

fun uniforms :: "'g crand \<Rightarrow> 'g \<Rightarrow> nat \<Rightarrow> real list" where
  "uniforms L gs 0 = []"
| "uniforms L gs (Suc n) =
     (case rand L gs of (x, gs') \<Rightarrow>
        (real_of_int x / real_of_int (RAND_MAX L)) # uniforms L gs' n)"

fun after_draws :: "'g crand \<Rightarrow> 'g \<Rightarrow> nat \<Rightarrow> 'g" where
  "after_draws L gs 0 = gs"
| "after_draws L gs (Suc n) = after_draws L (snd (rand L gs)) n"

fun spheres_of_uniforms :: "real list \<Rightarrow> sphere list" where
  "spheres_of_uniforms (u1 # u2 # u3 # u4 # u5 # u6 # u7 # us) =
     \<lparr>cx = u1 * 20 - 10, cy = u2 * 20 - 10, cz = u3 * 20 - 5,
      radius = (u4 + 0.1) * 1.5, r = u5, g = u6, b = u7\<rparr> # spheres_of_uniforms us"
| "spheres_of_uniforms us = []"

definition spec_scene :: "'g crand \<Rightarrow> nat \<Rightarrow> sphere list" where
  "spec_scene L n = spheres_of_uniforms (uniforms L (srand L seed) (7 * n))"

text \<open>
  What the C standard promises of the library: \<^verbatim>\<open>RAND_MAX\<close> is at least 32767, and
  \<^verbatim>\<open>rand\<close> returns a value between 0 and \<^verbatim>\<open>RAND_MAX\<close>, both included.
\<close>

definition c_library :: "'g crand \<Rightarrow> bool" where
  "c_library L \<longleftrightarrow>
     32767 \<le> RAND_MAX L \<and> (\<forall>gs. 0 \<le> fst (rand L gs) \<and> fst (rand L gs) \<le> RAND_MAX L)"

text \<open>
  A ray as \<open>trace\<close> casts it, and a sphere that lies wholly in front of the plane the rays
  start from (the spheres of the generator do: their centres have \<open>cz \<ge> - 5\<close> and their radii
  are at most 1.65, the rays start at \<open>oz = - 10\<close>).
\<close>

definition camera_ray :: "ray \<Rightarrow> bool" where
  "camera_ray ry \<longleftrightarrow> dx ry = 0 \<and> dy ry = 0 \<and> dz ry = 1 \<and> oz ry = NEAR"

definition in_front :: "sphere \<Rightarrow> bool" where
  "in_front sph \<longleftrightarrow> - 5 \<le> cz sph \<and> 0 \<le> radius sph \<and> radius sph < 5"

subsection \<open>Test scenes\<close>

text \<open>
  The ray of pixel \<open>(0, 0)\<close> starts at \<open>(-10235/1024, -10235/1024, -10)\<close>. Three spheres are
  centred on it: one in front of the camera, met at distances 9 and 11, and two around the
  ray's origin, left at distance 15 and 25. A unit sphere at the world's origin is missed
  by this ray.
\<close>

definition unit_sphere :: sphere where
  "unit_sphere = \<lparr>cx = 0, cy = 0, cz = 0, radius = 1, r = 0, g = 0, b = 1\<rparr>"

definition near_sphere :: sphere where
  "near_sphere =
     \<lparr>cx = - 10235 / 1024, cy = - 10235 / 1024, cz = 0, radius = 1, r = 1, g = 0, b = 0\<rparr>"

definition enclosing_sphere :: sphere where
  "enclosing_sphere =
     \<lparr>cx = - 10235 / 1024, cy = - 10235 / 1024, cz = - 10, radius = 15, r = 0, g = 1, b = 0\<rparr>"

definition wide_sphere :: sphere where
  "wide_sphere =
     \<lparr>cx = - 10235 / 1024, cy = - 10235 / 1024, cz = - 10, radius = 25, r = 0, g = 1, b = 1\<rparr>"

text \<open>
  Two more spheres for the ray of pixel \<open>(0, 0)\<close>, both with the centre at the height of the
  ray's origin. The first has its centre at distance 1 from the ray and a radius one unit
  in the last place below 1, so that the ray passes it at a distance of about \<open>6 \<times> 10\<^sup>-\<^sup>8\<close>;
  the second has its centre at distance 2 and radius 1.
\<close>

definition grazing_sphere :: sphere where
  "grazing_sphere =
     \<lparr>cx = - 9211 / 1024, cy = - 10235 / 1024, cz = 0, radius = 16777215 / 16777216,
      r = 1, g = 1, b = 0\<rparr>"

definition missed_sphere :: sphere where
  "missed_sphere =
     \<lparr>cx = - 8187 / 1024, cy = - 10235 / 1024, cz = 0, radius = 1, r = 1, g = 0, b = 1\<rparr>"

text \<open>
  The least positive binary32 number, and coefficients \<open>b\<close> and \<open>c\<close> for which \<open>b\<^sup>2\<close> is
  below \<open>4c\<close> by less than half a unit in the last place of \<open>4c\<close>.
\<close>

definition least_float :: real where
  "least_float = 1 / 2 ^ 149"

definition close_b :: real where
  "close_b = 2097777 / 2097152"

definition close_c :: real where
  "close_c = 8393609 / 33554432"

text \<open>A ray whose direction is the zero vector.\<close>

definition still_ray :: ray where
  "still_ray = \<lparr>ox = 0, oy = 0, oz = 0, dx = 0, dy = 0, dz = 0, maxt = 20\<rparr>"

text \<open>
  Two libraries: a linear congruential generator with 15-bit results, and a generator
  whose every draw is \<^verbatim>\<open>RAND_MAX\<close>.
\<close>

definition lcg_rand :: "nat crand" where
  "lcg_rand =
     \<lparr>RAND_MAX = 32767,
      srand = (\<lambda>s. s mod 2 ^ 32),
      rand = (\<lambda>gs. (int (((gs * 214013 + 2531011) mod 2 ^ 32) div 65536 mod 32768),
                     (gs * 214013 + 2531011) mod 2 ^ 32))\<rparr>"

definition max_rand :: "unit crand" where
  "max_rand = \<lparr>RAND_MAX = 32767, srand = (\<lambda>s. ()), rand = (\<lambda>gs. (32767, gs))\<rparr>"

section \<open>The quadratic solver\<close>

lemma square_completed:
  fixes t :: real
  shows "4 * qa * (qa * t\<^sup>2 + qb * t + qc) = (2 * qa * t + qb)\<^sup>2 - (qb * qb - 4 * qa * qc)"
  by (simp add: power2_eq_square algebra_simps)

lemma quadratic_no_root:
  fixes t :: real
  assumes "qa \<noteq> 0" and "qb * qb - 4 * qa * qc < 0"
  shows "qa * t\<^sup>2 + qb * t + qc \<noteq> 0"
proof
  assume "qa * t\<^sup>2 + qb * t + qc = 0"
  then have "(2 * qa * t + qb)\<^sup>2 - (qb * qb - 4 * qa * qc) = 0"
    using square_completed [of qa t qb qc] by simp
  moreover have "0 \<le> (2 * qa * t + qb)\<^sup>2" by simp
  ultimately show False using assms(2) by linarith
qed

lemma quadratic_roots:
  fixes t :: real
  assumes "qa \<noteq> 0" and "0 \<le> qb * qb - 4 * qa * qc"
  shows "qa * t\<^sup>2 + qb * t + qc = 0 \<longleftrightarrow>
         t = (- qb - sqrt (qb * qb - 4 * qa * qc)) * (1 / (2 * qa)) \<or>
         t = (- qb + sqrt (qb * qb - 4 * qa * qc)) * (1 / (2 * qa))"
proof -
  let ?d = "qb * qb - 4 * qa * qc"
  have "qa * t\<^sup>2 + qb * t + qc = 0 \<longleftrightarrow> 4 * qa * (qa * t\<^sup>2 + qb * t + qc) = 0"
    using assms(1) by simp
  also have "\<dots> \<longleftrightarrow> (2 * qa * t + qb)\<^sup>2 = (sqrt ?d)\<^sup>2"
    using assms(2) by (simp add: square_completed)
  also have "\<dots> \<longleftrightarrow> 2 * qa * t + qb = sqrt ?d \<or> 2 * qa * t + qb = - sqrt ?d"
    by (rule power2_eq_iff)
  also have "\<dots> \<longleftrightarrow>
      t = (- qb - sqrt ?d) * (1 / (2 * qa)) \<or> t = (- qb + sqrt ?d) * (1 / (2 * qa))"
    using assms(1) by (auto simp: field_simps)
  finally show ?thesis .
qed

lemma solve_quadratic_no_roots:
  "qb * qb - 4 * qa * qc < 0 \<Longrightarrow> solve_quadratic qa qb qc = Inr None"
  by (simp add: solve_quadratic_def)

lemma solve_quadratic_two_roots:
  "qa \<noteq> 0 \<Longrightarrow> 0 \<le> qb * qb - 4 * qa * qc \<Longrightarrow>
   solve_quadratic qa qb qc =
     Inr (Some ((- qb - sqrt (qb * qb - 4 * qa * qc)) * (1 / (2 * qa)),
                (- qb + sqrt (qb * qb - 4 * qa * qc)) * (1 / (2 * qa))))"
  by (simp add: solve_quadratic_def Let_def)

lemma solve_quadratic_Some:
  assumes "solve_quadratic qa qb qc = Inr (Some (x1, x2))"
  shows "0 \<le> qb * qb - 4 * qa * qc"
    and "x1 = (- qb - sqrt (qb * qb - 4 * qa * qc)) * (1 / (2 * qa))"
    and "x2 = (- qb + sqrt (qb * qb - 4 * qa * qc)) * (1 / (2 * qa))"
  using assms by (auto simp: solve_quadratic_def Let_def split: if_splits)

lemma roots_in_order:
  assumes "0 < qa" and "solve_quadratic qa qb qc = Inr (Some (x1, x2))"
  shows "x1 \<le> x2"
proof -
  let ?d = "qb * qb - 4 * qa * qc"
  from assms(2) have "0 \<le> ?d" by (rule solve_quadratic_Some)
  then have "- qb - sqrt ?d \<le> - qb + sqrt ?d" by simp
  moreover have "0 \<le> 1 / (2 * qa)" using assms(1) by simp
  ultimately have "(- qb - sqrt ?d) * (1 / (2 * qa)) \<le> (- qb + sqrt ?d) * (1 / (2 * qa))"
    by (rule mult_right_mono)
  then show ?thesis
    using solve_quadratic_Some(2,3) [OF assms(2)] by simp
qed

lemma sqrt_900: "sqrt 900 = 30"
  by (rule real_sqrt_unique) auto

lemma sqrt_2500: "sqrt 2500 = 50"
  by (rule real_sqrt_unique) auto

section \<open>The intersector\<close>

lemma intersect_sphere_coeffs:
  "intersect_sphere sph ry =
     (case solve_quadratic (coeff_a ry) (coeff_b sph ry) (coeff_c sph ry) of
        Inl e \<Rightarrow> Inl e
      | Inr None \<Rightarrow> Inr (False, ry)
      | Inr (Some (t0, t1)) \<Rightarrow>
          if t0 > maxt ry \<or> t1 < 0 then Inr (False, ry)
          else Inr (True, ry\<lparr>maxt := (if t0 > 0 then t0 else t1)\<rparr>))"
  by (simp add: intersect_sphere_def coeff_a_def coeff_b_def coeff_c_def Let_def power2_eq_square)

lemma coeff_a_zero_iff: "coeff_a ry = 0 \<longleftrightarrow> dx ry = 0 \<and> dy ry = 0 \<and> dz ry = 0"
proof
  assume z: "coeff_a ry = 0"
  have "0 \<le> (dx ry)\<^sup>2" "0 \<le> (dy ry)\<^sup>2" "0 \<le> (dz ry)\<^sup>2" by simp_all
  with z have "(dx ry)\<^sup>2 = 0 \<and> (dy ry)\<^sup>2 = 0 \<and> (dz ry)\<^sup>2 = 0"
    unfolding coeff_a_def by linarith
  then show "dx ry = 0 \<and> dy ry = 0 \<and> dz ry = 0" by simp
next
  assume "dx ry = 0 \<and> dy ry = 0 \<and> dz ry = 0"
  then show "coeff_a ry = 0" by (simp add: coeff_a_def)
qed

lemma intersect_sphere_fields:
  assumes "intersect_sphere sph ry = Inr (hit, ry')"
  shows "ox ry' = ox ry" "oy ry' = oy ry" "oz ry' = oz ry"
    "dx ry' = dx ry" "dy ry' = dy ry" "dz ry' = dz ry"
    "\<not> hit \<Longrightarrow> ry' = ry"
  using assms
  by (auto simp: intersect_sphere_def Let_def split: sum.splits option.splits if_splits)

lemma pixel_ray_00:
  "pixel_ray 0 0 =
     \<lparr>ox = - 10235 / 1024, oy = - 10235 / 1024, oz = - 10, dx = 0, dy = 0, dz = 1, maxt = 20\<rparr>"
  by (simp add: pixel_ray_def LEFT_def WIDTH_def BOTTOM_def HEIGHT_def NEAR_def FAR_def
        kImageWidth_def kImageHeight_def)

lemma near_sphere_hit:
  "intersect_sphere near_sphere (pixel_ray 0 0) = Inr (True, (pixel_ray 0 0)\<lparr>maxt := 9\<rparr>)"
  by (simp add: pixel_ray_00 near_sphere_def intersect_sphere_def solve_quadratic_def Let_def)

lemma unit_sphere_miss:
  "intersect_sphere unit_sphere (pixel_ray 0 0) = Inr (False, pixel_ray 0 0)"
  by (simp add: pixel_ray_00 unit_sphere_def intersect_sphere_def solve_quadratic_def Let_def)

text \<open>
  Claim C3. Over the scan of one pixel \<open>maxt\<close> should never grow: a call of
  \<open>intersect_sphere\<close> that returns \<^verbatim>\<open>true\<close> should leave \<open>maxt\<close> at most what it was. The code
  does not keep to it. For a sphere around the ray's origin the first root is negative, the
  test \<open>t0 > maxt\<close> lets the sphere pass, and \<open>maxt\<close> takes the second root, which no test
  compares with the old value: the ray of pixel \<open>(0, 0)\<close> starts with \<open>maxt = 20\<close> and leaves
  the call with \<open>maxt = 25\<close>.
\<close>

theorem intersect_sphere_widens_maxt:
  "maxt (pixel_ray 0 0) = 20 \<and>
   intersect_sphere wide_sphere (pixel_ray 0 0) = Inr (True, (pixel_ray 0 0)\<lparr>maxt := 25\<rparr>)"
  by (simp add: pixel_ray_00 wide_sphere_def intersect_sphere_def solve_quadratic_def Let_def
        sqrt_2500)

text \<open>
  A call that accepts with a positive first root does tighten the bound.
\<close>

lemma intersect_sphere_front_hit_tightens:
  assumes "intersect_sphere sph ry = Inr (True, ry')"
    and "solve_quadratic (coeff_a ry) (coeff_b sph ry) (coeff_c sph ry) = Inr (Some (t0, t1))"
    and "0 < t0"
  shows "maxt ry' = t0 \<and> maxt ry' \<le> maxt ry"
  using assms by (auto simp: intersect_sphere_coeffs split: if_splits)

section \<open>The scan\<close>

lemma intersect_sphere_total:
  assumes "coeff_a ry \<noteq> 0"
  shows "\<exists>hit ry'. intersect_sphere sph ry = Inr (hit, ry')"
proof (cases "coeff_b sph ry * coeff_b sph ry - 4 * coeff_a ry * coeff_c sph ry < 0")
  case True
  then have "intersect_sphere sph ry = Inr (False, ry)"
    by (simp add: intersect_sphere_coeffs solve_quadratic_no_roots)
  then show ?thesis by blast
next
  case False
  with assms show ?thesis
    by (auto simp: intersect_sphere_coeffs solve_quadratic_two_roots)
qed

lemma coeff_a_intersect:
  "intersect_sphere sph ry = Inr (hit, ry') \<Longrightarrow> coeff_a ry' = coeff_a ry"
  using intersect_sphere_fields(4-6) [of sph ry hit ry'] by (simp add: coeff_a_def)

lemma scan_total:
  "coeff_a ry \<noteq> 0 \<Longrightarrow>
   \<exists>idx' ry'. scan spheres k ry idx = Inr (idx', ry') \<and> coeff_a ry' = coeff_a ry"
proof (induction spheres arbitrary: k ry idx)
  case Nil
  then show ?case by simp
next
  case (Cons sph rest)
  from intersect_sphere_total [OF Cons.prems, of sph]
  obtain hit ry1 where step: "intersect_sphere sph ry = Inr (hit, ry1)" by blast
  then have a1: "coeff_a ry1 = coeff_a ry" by (rule coeff_a_intersect)
  with Cons.prems have "coeff_a ry1 \<noteq> 0" by simp
  from Cons.IH [OF this, of "Suc k" "if hit then int_of_uint k else idx"] a1 step
  show ?case by auto
qed

lemma coeff_a_pixel_ray: "coeff_a (pixel_ray i j) = 1"
  by (simp add: coeff_a_def pixel_ray_def)

lemma scan_pixel_ray_total:
  "\<exists>idx ry. scan spheres 0 (pixel_ray i j) (- 1) = Inr (idx, ry) \<and> coeff_a ry = 1"
  using scan_total [of "pixel_ray i j" spheres 0 "- 1"] by (simp add: coeff_a_pixel_ray)





lemma int_of_uint_small:
  assumes "k < 2 ^ 31"
  shows "int_of_uint k = int k"
proof -
  from assms have lt: "int k < 2 ^ 31"
    by (metis of_nat_less_iff of_nat_numeral of_nat_power)
  from assms have "k < 2 ^ 32" by simp
  then have "uint (word_of_nat k :: 32 word) = int k"
    by (simp add: unsigned_of_nat take_bit_nat_eq_self)
  moreover have "signed_take_bit 31 (int k) = int k"
    using lt by (simp add: signed_take_bit_int_eq_self)
  ultimately show ?thesis
    by (simp add: int_of_uint_def sint_uint)
qed



section \<open>The pixel loops\<close>

declare trace_j.simps [simp del] trace_i.simps [simp del]

lemma trace_pixel_writes:
  "trace_pixel spheres i j img =
     Inr (img((j * kImageWidth + i) * 3 := pixel_value spheres i j 0,
              (j * kImageWidth + i) * 3 + 1 := pixel_value spheres i j 1,
              (j * kImageWidth + i) * 3 + 2 := pixel_value spheres i j 2))"
proof -
  obtain idx ry where "scan spheres 0 (pixel_ray i j) (- 1) = Inr (idx, ry)"
    using scan_pixel_ray_total [of spheres i j] by blast
  then show ?thesis
    by (simp add: trace_pixel_def pixel_value_def)
qed

lemma three_channels:
  fixes p m :: nat
  shows "(img(3 * m := v0, 3 * m + 1 := v1, 3 * m + 2 := v2)) p =
     (if p div 3 = m then (if p mod 3 = 0 then v0 else if p mod 3 = 1 then v1 else v2)
      else img p)"
proof -
  have "p div 3 = m \<longleftrightarrow> p = 3 * m \<or> p = 3 * m + 1 \<or> p = 3 * m + 2" by presburger
  moreover have "p = 3 * m \<Longrightarrow> p mod 3 = 0" by presburger
  moreover have "p = 3 * m + 1 \<Longrightarrow> p mod 3 = 1" by presburger
  moreover have "p = 3 * m + 2 \<Longrightarrow> p mod 3 = 2" by presburger
  ultimately show ?thesis by (auto simp: fun_upd_def)
qed

lemma kImageWidth_pos: "0 < kImageWidth"
  by (simp add: kImageWidth_def)

lemma kImageHeight_pos: "0 < kImageHeight"
  by (simp add: kImageHeight_def)

lemma encode_pixel:
  "q mod kImageWidth = i \<Longrightarrow> q div kImageWidth = j \<Longrightarrow> q = j * kImageWidth + i"
  by (metis div_mult_mod_eq)

text \<open>
  The offsets fit the 32-bit unsigned arithmetic of the source: no product or sum wraps.
\<close>

lemma offset_fits:
  "i < kImageWidth \<Longrightarrow> j < kImageHeight \<Longrightarrow> (j * kImageWidth + i) * 3 + 2 < 2 ^ 32"
proof -
  assume "i < kImageWidth" "j < kImageHeight"
  then have "i \<le> 2047" "j \<le> 2047" by (simp_all add: kImageWidth_def kImageHeight_def)
  then have "j * 2048 + i \<le> 2047 * 2048 + 2047" by (intro add_mono mult_le_mono) simp_all
  then show ?thesis by (simp add: kImageWidth_def)
qed

lemma trace_j_image:
  "i < kImageWidth \<Longrightarrow> j \<le> kImageHeight \<Longrightarrow>
   trace_j spheres i j img =
     Inr (\<lambda>p. if p div 3 mod kImageWidth = i \<and> j \<le> p div 3 div kImageWidth
                  \<and> p div 3 div kImageWidth < kImageHeight
               then pixel_value spheres i (p div 3 div kImageWidth) (p mod 3) else img p)"
proof (induction spheres i j img rule: trace_j.induct)
  case (1 spheres i j img)
  show ?case
  proof (cases "j < kImageHeight")
    case False
    then have "\<And>x. \<not> (j \<le> x \<and> x < kImageHeight)" by simp
    then have "(\<lambda>p. if p div 3 mod kImageWidth = i \<and> j \<le> p div 3 div kImageWidth
                  \<and> p div 3 div kImageWidth < kImageHeight
               then pixel_value spheres i (p div 3 div kImageWidth) (p mod 3) else img p) = img"
      by (auto simp: fun_eq_iff)
    with False show ?thesis by (subst trace_j.simps) (simp only: if_False)
  next
    case True
    let ?img1 = "img((j * kImageWidth + i) * 3 := pixel_value spheres i j 0,
              (j * kImageWidth + i) * 3 + 1 := pixel_value spheres i j 1,
              (j * kImageWidth + i) * 3 + 2 := pixel_value spheres i j 2)"
    have step: "trace_pixel spheres i j img = Inr ?img1" by (rule trace_pixel_writes)
    from True have "Suc j \<le> kImageHeight" by simp
    from "1.IH" [OF True step "1.prems"(1) this]
    have rest: "trace_j spheres i (Suc j) ?img1 =
      Inr (\<lambda>p. if p div 3 mod kImageWidth = i \<and> Suc j \<le> p div 3 div kImageWidth
                  \<and> p div 3 div kImageWidth < kImageHeight
               then pixel_value spheres i (p div 3 div kImageWidth) (p mod 3) else ?img1 p)" .
    have img1: "\<And>p. ?img1 p = (if p div 3 = j * kImageWidth + i
         then (if p mod 3 = 0 then pixel_value spheres i j 0
               else if p mod 3 = 1 then pixel_value spheres i j 1
               else pixel_value spheres i j 2)
         else img p)"
      using three_channels [of img "j * kImageWidth + i"] by (simp add: mult.commute)
    have pm: "\<And>p::nat. p mod 3 = 0 \<or> p mod 3 = 1 \<or> p mod 3 = 2" by presburger
    have eq: "(\<lambda>p. if p div 3 mod kImageWidth = i \<and> Suc j \<le> p div 3 div kImageWidth
                  \<and> p div 3 div kImageWidth < kImageHeight
               then pixel_value spheres i (p div 3 div kImageWidth) (p mod 3) else ?img1 p)
       = (\<lambda>p. if p div 3 mod kImageWidth = i \<and> j \<le> p div 3 div kImageWidth
                  \<and> p div 3 div kImageWidth < kImageHeight
               then pixel_value spheres i (p div 3 div kImageWidth) (p mod 3) else img p)"
    proof (rule ext)
      fix p
      show "(if p div 3 mod kImageWidth = i \<and> Suc j \<le> p div 3 div kImageWidth
                  \<and> p div 3 div kImageWidth < kImageHeight
               then pixel_value spheres i (p div 3 div kImageWidth) (p mod 3) else ?img1 p)
       = (if p div 3 mod kImageWidth = i \<and> j \<le> p div 3 div kImageWidth
                  \<and> p div 3 div kImageWidth < kImageHeight
               then pixel_value spheres i (p div 3 div kImageWidth) (p mod 3) else img p)"
      proof (cases "p div 3 = j * kImageWidth + i")
        case here: True
        with "1.prems"(1) have "p div 3 mod kImageWidth = i" "p div 3 div kImageWidth = j"
          by simp_all
        with here True pm [of p] show ?thesis unfolding img1 by auto
      next
        case other: False
        then have "\<not> (p div 3 mod kImageWidth = i \<and> p div 3 div kImageWidth = j)"
          using encode_pixel [of "p div 3" i j] by blast
        with other show ?thesis unfolding img1 by auto
      qed
    qed
    show ?thesis
      by (subst trace_j.simps) (simp only: True if_True step sum.case rest eq)
  qed
qed

lemma trace_i_image:
  "i \<le> kImageWidth \<Longrightarrow>
   trace_i spheres i img =
     Inr (\<lambda>p. if i \<le> p div 3 mod kImageWidth \<and> p div 3 div kImageWidth < kImageHeight
               then pixel_value spheres (p div 3 mod kImageWidth) (p div 3 div kImageWidth)
                      (p mod 3)
               else img p)"
proof (induction spheres i img rule: trace_i.induct)
  case (1 spheres i img)
  have below: "\<And>p. p div 3 mod kImageWidth < kImageWidth"
    using kImageWidth_pos by simp
  show ?case
  proof (cases "i < kImageWidth")
    case False
    with "1.prems" have "i = kImageWidth" by simp
    with below have "\<And>p. \<not> i \<le> p div 3 mod kImageWidth" by (simp add: not_le)
    then have "(\<lambda>p. if i \<le> p div 3 mod kImageWidth \<and> p div 3 div kImageWidth < kImageHeight
               then pixel_value spheres (p div 3 mod kImageWidth) (p div 3 div kImageWidth)
                      (p mod 3)
               else img p) = img"
      by (auto simp: fun_eq_iff)
    with False show ?thesis by (subst trace_i.simps) (simp only: if_False)
  next
    case True
    let ?img1 = "\<lambda>p. if p div 3 mod kImageWidth = i \<and> 0 \<le> p div 3 div kImageWidth
                  \<and> p div 3 div kImageWidth < kImageHeight
               then pixel_value spheres i (p div 3 div kImageWidth) (p mod 3) else img p"
    have col: "trace_j spheres i 0 img = Inr ?img1"
      using True by (rule trace_j_image) simp
    from True have "Suc i \<le> kImageWidth" by simp
    from "1.IH" [OF True col this]
    have rest: "trace_i spheres (Suc i) ?img1 =
      Inr (\<lambda>p. if Suc i \<le> p div 3 mod kImageWidth \<and> p div 3 div kImageWidth < kImageHeight
               then pixel_value spheres (p div 3 mod kImageWidth) (p div 3 div kImageWidth)
                      (p mod 3)
               else ?img1 p)" .
    have eq: "(\<lambda>p. if Suc i \<le> p div 3 mod kImageWidth \<and> p div 3 div kImageWidth < kImageHeight
               then pixel_value spheres (p div 3 mod kImageWidth) (p div 3 div kImageWidth)
                      (p mod 3)
               else ?img1 p)
        = (\<lambda>p. if i \<le> p div 3 mod kImageWidth \<and> p div 3 div kImageWidth < kImageHeight
               then pixel_value spheres (p div 3 mod kImageWidth) (p div 3 div kImageWidth)
                      (p mod 3)
               else img p)"
      by (auto simp: fun_eq_iff not_less_eq_eq)
    show ?thesis
      by (subst trace_i.simps) (simp only: True if_True col sum.case rest eq)
  qed
qed

text \<open>
  The buffer \<open>trace\<close> leaves: every pixel of the grid holds what the loop body computes for
  it, whatever the order of the writes, and the memory past the grid is as it was.
\<close>

lemma trace_image:
  "trace spheres img =
     Inr (\<lambda>p. if p div 3 div kImageWidth < kImageHeight
               then pixel_value spheres (p div 3 mod kImageWidth) (p div 3 div kImageWidth)
                      (p mod 3)
               else img p)"
  unfolding trace_def using trace_i_image [of 0 spheres img] by simp

lemma trace_reads:
  assumes "i < kImageWidth" "j < kImageHeight" "c < 3" "trace spheres img = Inr img'"
  shows "img' ((j * kImageWidth + i) * 3 + c) = pixel_value spheres i j c"
proof -
  let ?p = "(j * kImageWidth + i) * 3 + c"
  define q where "q = j * kImageWidth + i"
  from assms(3) have "(q * 3 + c) div 3 = q" "(q * 3 + c) mod 3 = c" by presburger+
  then have "?p div 3 = j * kImageWidth + i" "?p mod 3 = c" unfolding q_def by blast+
  moreover from assms(1) have "(j * kImageWidth + i) mod kImageWidth = i"
    "(j * kImageWidth + i) div kImageWidth = j" by simp_all
  moreover from assms(4) have "img' = (\<lambda>p. if p div 3 div kImageWidth < kImageHeight
               then pixel_value spheres (p div 3 mod kImageWidth) (p div 3 div kImageWidth)
                      (p mod 3)
               else img p)" by (simp add: trace_image)
  ultimately show ?thesis using assms(2) by simp
qed

lemma pixel_value_scan:
  assumes "scan spheres 0 (pixel_ray i j) (- 1) = Inr (idx, ry)"
  shows "pixel_value spheres i j 0 = (if idx > 0 then r (spheres ! nat idx) else 0.1)"
    and "pixel_value spheres i j 1 = (if idx > 0 then g (spheres ! nat idx) else 0.1)"
    and "pixel_value spheres i j 2 = (if idx > 0 then b (spheres ! nat idx) else 0.1)"
  using assms by (simp_all add: pixel_value_def trace_pixel_def)

lemma trace_pixel_at:
  assumes "i < kImageWidth" "j < kImageHeight" "trace spheres img = Inr img'"
    and "scan spheres 0 (pixel_ray i j) (- 1) = Inr (idx, ry)"
  shows "pixel_at img' i j = (if idx > 0 then color (spheres ! nat idx) else background)"
proof -
  have lt: "(0::nat) < 3" "(1::nat) < 3" "(2::nat) < 3" by simp_all
  note rd = trace_reads [OF assms(1) assms(2) _ assms(3)]
  have "img' ((j * kImageWidth + i) * 3) = pixel_value spheres i j 0"
    using rd [OF lt(1)] by simp
  moreover note rd [OF lt(2)] rd [OF lt(3)]
  ultimately show ?thesis
    unfolding pixel_at_def color_def background_def pixel_value_scan [OF assms(4)]
    by simp
qed

lemma trace_returns: "\<exists>img'. trace spheres img = Inr img'"
  by (simp add: trace_image)

text \<open>
  Claim C8. The ray of every pixel has direction \<open>(0, 0, 1)\<close>, so the coefficient \<open>a\<close> that
  \<open>intersect_sphere\<close> computes is 1 and \<open>2a\<close> is not 0; the scan leaves the direction alone,
  so \<open>a\<close> is 1 at every call of the scan, whatever the spheres; hence no scan and no run of
  \<open>trace\<close> ends in the division by zero: both return.
\<close>

theorem pixel_rays_never_divide_by_zero:
  "coeff_a (pixel_ray i j) = 1 \<and> 2 * coeff_a (pixel_ray i j) \<noteq> 0 \<and>
   (\<exists>hit ry. intersect_sphere sph (pixel_ray i j) = Inr (hit, ry)) \<and>
   (\<exists>idx ry. scan spheres 0 (pixel_ray i j) (- 1) = Inr (idx, ry) \<and> coeff_a ry = 1) \<and>
   (\<exists>img'. trace spheres img = Inr img')"
proof -
  have "coeff_a (pixel_ray i j) \<noteq> 0" by (simp add: coeff_a_pixel_ray)
  then have "\<exists>hit ry. intersect_sphere sph (pixel_ray i j) = Inr (hit, ry)"
    by (rule intersect_sphere_total)
  then show ?thesis
    using scan_pixel_ray_total [of spheres i j] trace_returns [of spheres img]
    by (simp add: coeff_a_pixel_ray)
qed

theorem pixel_rays_never_divide_by_zero_witness:
  "coeff_a (pixel_ray 0 0) = 1 \<and>
   (\<exists>hit ry. intersect_sphere near_sphere (pixel_ray 0 0) = Inr (hit, ry)) \<and>
   (\<exists>idx ry. scan [unit_sphere, near_sphere] 0 (pixel_ray 0 0) (- 1) = Inr (idx, ry)
      \<and> coeff_a ry = 1) \<and>
   (\<exists>img'. trace [unit_sphere, near_sphere] (\<lambda>p. 0) = Inr img')"
  using pixel_rays_never_divide_by_zero [of 0 0 near_sphere "[unit_sphere, near_sphere]" "\<lambda>p. 0"]
  by blast


lemma int_of_uint_2: "int_of_uint (Suc (Suc 0)) = 2"
  using int_of_uint_small [of "Suc (Suc 0)"] by simp



lemma origin_pixel: "0 < kImageWidth \<and> 0 < kImageHeight"
  by (simp add: kImageWidth_def kImageHeight_def)





lemma enclosing_sphere_hit:
  "intersect_sphere enclosing_sphere ((pixel_ray 0 0)\<lparr>maxt := 9\<rparr>) =
     Inr (True, (pixel_ray 0 0)\<lparr>maxt := 15\<rparr>)"
  by (simp add: pixel_ray_00 enclosing_sphere_def intersect_sphere_def solve_quadratic_def
        Let_def sqrt_900)

lemma scan_enclosing_last:
  "scan [unit_sphere, near_sphere, enclosing_sphere] 0 (pixel_ray 0 0) (- 1) =
     Inr (2, (pixel_ray 0 0)\<lparr>maxt := 15\<rparr>)"
  by (simp add: unit_sphere_miss near_sphere_hit enclosing_sphere_hit int_of_uint_2)

text \<open>
  Claim C1. The index the scan keeps is that of the last sphere for which
  \<open>intersect_sphere\<close> returned \<^verbatim>\<open>true\<close>; it should be the sphere whose accepted distance is
  the least. The code does not keep to it. With a sphere met at distance 9 at index 1 and
  a sphere around the ray's origin at index 2, the second call accepts too, at distance 15
  (its first root, -15, is below the bound 9, and its second root is never compared with
  the bound): the accepted hits are \<open>(1, 9)\<close> and \<open>(2, 15)\<close>, the index kept is 2, and the pixel
  takes the colour of the farther sphere.
\<close>

theorem last_hit_not_nearest:
  "scan [unit_sphere, near_sphere, enclosing_sphere] 0 (pixel_ray 0 0) (- 1) =
     Inr (2, (pixel_ray 0 0)\<lparr>maxt := 15\<rparr>) \<and>
   scan_hits [unit_sphere, near_sphere, enclosing_sphere] 0 (pixel_ray 0 0) =
     [(1, 9), (2, 15)] \<and>
   (\<exists>img'. trace [unit_sphere, near_sphere, enclosing_sphere] (\<lambda>p. 0) = Inr img' \<and>
      pixel_at img' 0 0 = color enclosing_sphere \<and>
      color enclosing_sphere \<noteq> color near_sphere)"
proof -
  let ?scene = "[unit_sphere, near_sphere, enclosing_sphere]"
  have hits: "scan_hits ?scene 0 (pixel_ray 0 0) = [(1, 9), (2, 15)]"
    by (simp add: unit_sphere_miss near_sphere_hit enclosing_sphere_hit)
  obtain img' where tr: "trace ?scene (\<lambda>p. 0) = Inr img'"
    using trace_returns by blast
  from origin_pixel tr scan_enclosing_last
  have "pixel_at img' 0 0 = (if (2::int) > 0 then color (?scene ! nat 2) else background)"
    by (simp only: trace_pixel_at)
  then have "pixel_at img' 0 0 = color enclosing_sphere" by simp
  moreover have "color enclosing_sphere \<noteq> color near_sphere"
    by (simp add: color_def enclosing_sphere_def near_sphere_def)
  ultimately show ?thesis using scan_enclosing_last hits tr by blast
qed

section \<open>The scene generators\<close>

declare generate_loop.simps [simp del] generate_spheres_reworked.simps [simp del]

lemma seven_more: "7 * Suc n = Suc (Suc (Suc (Suc (Suc (Suc (Suc (7 * n)))))))"
  by simp

text \<open>One run of the constructor is the next seven uniform values, in the order of the fields.\<close>

lemma sphere_ctor_uniforms:
  "sphere_ctor L gs = (sph, gs') \<Longrightarrow>
   spheres_of_uniforms (uniforms L gs (7 * Suc n)) =
     sph # spheres_of_uniforms (uniforms L gs' (7 * n))
   \<and> after_draws L gs (7 * Suc n) = after_draws L gs' (7 * n)"
  unfolding seven_more
  by (auto simp: sphere_ctor_def rand_float_def Let_def split: prod.splits)

lemma length_spheres_of_uniforms:
  "length (spheres_of_uniforms (uniforms L gs (7 * n))) = n"
proof (induction n arbitrary: gs)
  case 0
  then show ?case by simp
next
  case (Suc n)
  obtain sph gs' where "sphere_ctor L gs = (sph, gs')" by (cases "sphere_ctor L gs")
  from sphere_ctor_uniforms [OF this, of n] Suc.IH [of gs'] show ?case by simp
qed

lemma generate_spheres_reworked_spec:
  "generate_spheres_reworked L capacity i spheres gs =
     (spheres @ spheres_of_uniforms (uniforms L gs (7 * (capacity - i))),
      after_draws L gs (7 * (capacity - i)))"
proof (induction L capacity i spheres gs rule: generate_spheres_reworked.induct)
  case (1 L capacity i spheres gs)
  show ?case
  proof (cases "i < capacity")
    case False
    then show ?thesis by (subst generate_spheres_reworked.simps) simp
  next
    case True
    obtain sph gs' where ctor: "sphere_ctor L gs = (sph, gs')" by (cases "sphere_ctor L gs")
    from True have diff: "capacity - i = Suc (capacity - Suc i)" by simp
    from "1.IH" [OF True ctor [symmetric]] sphere_ctor_uniforms [OF ctor, of "capacity - Suc i"]
    show ?thesis
      by (subst generate_spheres_reworked.simps)
         (simp only: True if_True ctor prod.case diff append_assoc append_Cons append_Nil)
  qed
qed

lemma sphere_overwrite:
  fixes sph :: sphere
  shows "sph\<lparr>cx := v1, cy := v2, cz := v3, radius := v4, r := v5, g := v6, b := v7\<rparr> =
         \<lparr>cx = v1, cy = v2, cz = v3, radius = v4, r = v5, g = v6, b = v7\<rparr>"
  by (cases sph) simp

text \<open>
  One iteration of the original loop stores at \<open>spheres[i]\<close> what the constructor of the
  reworked program builds from the same state.
\<close>

lemma generate_loop_step:
  assumes "i < num_spheres" "i < length spheres" "sphere_ctor L gs = (sph, gs')"
  shows "generate_loop L num_spheres i spheres gs =
         generate_loop L num_spheres (Suc i) (spheres[i := sph]) gs'"
  using assms
  by (subst generate_loop.simps)
     (auto simp: RAND_FLOAT_def sphere_ctor_def rand_float_def Let_def sphere_overwrite
           split: prod.splits)

lemma generate_loop_spec:
  "i \<le> num_spheres \<Longrightarrow> num_spheres \<le> length spheres \<Longrightarrow>
   generate_loop L num_spheres i spheres gs =
     (take i spheres @ spheres_of_uniforms (uniforms L gs (7 * (num_spheres - i)))
        @ drop num_spheres spheres,
      after_draws L gs (7 * (num_spheres - i)))"
proof (induction "num_spheres - i" arbitrary: i spheres gs)
  case 0
  then have "i = num_spheres" by simp
  then show ?case by (subst generate_loop.simps) simp
next
  case (Suc d)
  then have lt: "i < num_spheres" and len: "i < length spheres" by simp_all
  obtain sph gs' where ctor: "sphere_ctor L gs = (sph, gs')" by (cases "sphere_ctor L gs")
  from Suc have d: "d = num_spheres - Suc i"
    and diff: "num_spheres - i = Suc (num_spheres - Suc i)"
    by simp_all
  have "generate_loop L num_spheres i spheres gs =
        generate_loop L num_spheres (Suc i) (spheres[i := sph]) gs'"
    using lt len ctor by (rule generate_loop_step)
  also have "\<dots> = (take (Suc i) (spheres[i := sph])
        @ spheres_of_uniforms (uniforms L gs' (7 * (num_spheres - Suc i)))
        @ drop num_spheres (spheres[i := sph]),
      after_draws L gs' (7 * (num_spheres - Suc i)))"
    using Suc.hyps(1) [OF d] lt Suc.prems(2) by simp
  also have "take (Suc i) (spheres[i := sph]) = take i spheres @ [sph]"
    using len by (simp add: take_Suc_conv_app_nth)
  also have "drop num_spheres (spheres[i := sph]) = drop num_spheres spheres"
    using lt by simp
  finally show ?case
    using sphere_ctor_uniforms [OF ctor, of "num_spheres - Suc i"] unfolding diff by simp
qed

lemma generate_spheres_spec:
  assumes "length spheres = num_spheres"
  shows "generate_spheres L spheres num_spheres =
         (spec_scene L num_spheres, after_draws L (srand L seed) (7 * num_spheres))"
  using assms generate_loop_spec [of 0 num_spheres spheres L "srand L seed"]
  by (simp add: generate_spheres_def spec_scene_def)

lemma reworked_scene_spec:
  "reworked_scene L n = (spec_scene L n, after_draws L (srand L seed) (7 * n))"
  by (simp add: reworked_scene_def spec_scene_def generate_spheres_reworked_spec)

lemma spheres_of_uniforms_nth:
  "7 * k + 6 < length us \<Longrightarrow>
   spheres_of_uniforms us ! k =
     \<lparr>cx = us ! (7 * k) * 20 - 10, cy = us ! (7 * k + 1) * 20 - 10,
      cz = us ! (7 * k + 2) * 20 - 5, radius = (us ! (7 * k + 3) + 0.1) * 1.5,
      r = us ! (7 * k + 4), g = us ! (7 * k + 5), b = us ! (7 * k + 6)\<rparr>"
proof (induction us arbitrary: k rule: spheres_of_uniforms.induct)
  case (1 u1 u2 u3 u4 u5 u6 u7 us)
  show ?case
  proof (cases k)
    case 0
    then show ?thesis by simp
  next
    case (Suc k')
    with "1.prems" have "7 * k' + 6 < length us" by simp
    from "1.IH" [OF this] show ?thesis
      unfolding Suc seven_more by (simp add: numeral_eq_Suc)
  qed
qed simp_all

lemma length_uniforms: "length (uniforms L gs n) = n"
  by (induction n arbitrary: gs) (auto split: prod.splits)

lemma spec_scene_nth:
  assumes "k < n"
  shows "spec_scene L n ! k =
     \<lparr>cx = uniforms L (srand L seed) (7 * n) ! (7 * k) * 20 - 10,
      cy = uniforms L (srand L seed) (7 * n) ! (7 * k + 1) * 20 - 10,
      cz = uniforms L (srand L seed) (7 * n) ! (7 * k + 2) * 20 - 5,
      radius = (uniforms L (srand L seed) (7 * n) ! (7 * k + 3) + 0.1) * 1.5,
      r = uniforms L (srand L seed) (7 * n) ! (7 * k + 4),
      g = uniforms L (srand L seed) (7 * n) ! (7 * k + 5),
      b = uniforms L (srand L seed) (7 * n) ! (7 * k + 6)\<rparr>"
proof -
  from assms have "7 * k + 6 < length (uniforms L (srand L seed) (7 * n))"
    by (simp add: length_uniforms)
  then show ?thesis unfolding spec_scene_def by (rule spheres_of_uniforms_nth)
qed

lemma spec_scene_1: "spec_scene L (Suc 0) = [fst (sphere_ctor L (srand L seed))]"
proof -
  obtain sph gs' where c: "sphere_ctor L (srand L seed) = (sph, gs')"
    by (cases "sphere_ctor L (srand L seed)")
  from sphere_ctor_uniforms [OF c, of 0] c show ?thesis
    by (simp add: spec_scene_def)
qed

lemma lcg_rand_draws:
  "rand lcg_rand 2296971252 = (18756, 1229221607)"
  "rand lcg_rand 1229221607 = (7811, 2659429902)"
  "rand lcg_rand 2659429902 = (10497, 687951001)"
  "rand lcg_rand 687951001 = (17222, 3276168440)"
  "rand lcg_rand 3276168440 = (32237, 2112710619)"
  "rand lcg_rand 2112710619 = (19845, 3448083250)"
  "rand lcg_rand 3448083250 = (19525, 3427085613)"
  by (simp_all add: lcg_rand_def)

lemma lcg_rand_consts: "RAND_MAX lcg_rand = 32767" "srand lcg_rand seed = 2296971252"
  by (simp_all add: lcg_rand_def seed_def)

lemma lcg_rand_first_sphere:
  "spec_scene lcg_rand (Suc 0) =
     [\<lparr>cx = 47450 / 32767, cy = - (171450 / 32767), cz = 46105 / 32767,
       radius = 614961 / 655340, r = 32237 / 32767, g = 2835 / 4681, b = 19525 / 32767\<rparr>]"
  unfolding spec_scene_1
  by (simp add: sphere_ctor_def rand_float_def lcg_rand_draws lcg_rand_consts)

lemma c_library_lcg_rand: "c_library lcg_rand"
proof -
  have "x mod 32768 \<le> 32767" for x :: nat
  proof -
    have "x mod 32768 < 32768" by simp
    then show ?thesis by linarith
  qed
  then show ?thesis
    by (simp add: c_library_def lcg_rand_def)
qed

text \<open>
  Claim C5. From the same seed and for the same count the original generator and the
  reworked one (the default constructor run by \<open>generate_spheres\<close> on a vector with the
  capacity reserved) give the same spheres in the same order and leave the library in the
  same state. Both give the scene of the specification: sphere \<open>k\<close> takes the uniform values
  \<open>7k, \<dots>, 7k + 6\<close> of the seeded sequence, for \<open>cx\<close>, \<open>cy\<close>, \<open>cz\<close>, \<open>radius\<close>, \<open>r\<close>, \<open>g\<close>, \<open>b\<close> in
  this order, with \<open>cx, cy = u \<cdot> 20 - 10\<close>, \<open>cz = u \<cdot> 20 - 5\<close>,
  \<open>radius = (u + 0.1) \<cdot> 1.5\<close> and \<open>r, g, b = u\<close>.
\<close>

theorem generators_agree:
  assumes "length spheres = num_spheres"
  shows "generate_spheres L spheres num_spheres = reworked_scene L num_spheres \<and>
         fst (reworked_scene L num_spheres) = spec_scene L num_spheres \<and>
         length (spec_scene L num_spheres) = num_spheres \<and>
         (\<forall>us k. us = uniforms L (srand L seed) (7 * num_spheres) \<and> k < num_spheres \<longrightarrow>
            spec_scene L num_spheres ! k =
              \<lparr>cx = us ! (7 * k) * 20 - 10, cy = us ! (7 * k + 1) * 20 - 10,
               cz = us ! (7 * k + 2) * 20 - 5, radius = (us ! (7 * k + 3) + 0.1) * 1.5,
               r = us ! (7 * k + 4), g = us ! (7 * k + 5), b = us ! (7 * k + 6)\<rparr>)"
proof (intro conjI allI impI)
  show "generate_spheres L spheres num_spheres = reworked_scene L num_spheres"
    using assms by (simp add: generate_spheres_spec reworked_scene_spec)
  show "fst (reworked_scene L num_spheres) = spec_scene L num_spheres"
    by (simp add: reworked_scene_spec)
  show "length (spec_scene L num_spheres) = num_spheres"
    by (simp add: spec_scene_def length_spheres_of_uniforms)
next
  fix us k
  assume "us = uniforms L (srand L seed) (7 * num_spheres) \<and> k < num_spheres"
  then show "spec_scene L num_spheres ! k =
              \<lparr>cx = us ! (7 * k) * 20 - 10, cy = us ! (7 * k + 1) * 20 - 10,
               cz = us ! (7 * k + 2) * 20 - 5, radius = (us ! (7 * k + 3) + 0.1) * 1.5,
               r = us ! (7 * k + 4), g = us ! (7 * k + 5), b = us ! (7 * k + 6)\<rparr>"
    using spec_scene_nth [of k num_spheres L] by blast
qed

theorem generators_agree_witness:
  "length [unit_sphere] = 1 \<and>
   generate_spheres lcg_rand [unit_sphere] 1 = reworked_scene lcg_rand 1 \<and>
   fst (reworked_scene lcg_rand 1) =
     [\<lparr>cx = 47450 / 32767, cy = - (171450 / 32767), cz = 46105 / 32767,
       radius = 614961 / 655340, r = 32237 / 32767, g = 2835 / 4681, b = 19525 / 32767\<rparr>]"
proof -
  have len: "length [unit_sphere] = 1" by simp
  from generators_agree [OF len, of lcg_rand] lcg_rand_first_sphere len
  show ?thesis by simp
qed

lemma uniforms_unit_interval:
  assumes "c_library L"
  shows "\<forall>u \<in> set (uniforms L gs n). 0 \<le> u \<and> u \<le> 1"
proof (induction n arbitrary: gs)
  case 0
  then show ?case by simp
next
  case (Suc n)
  obtain x gs' where dr: "rand L gs = (x, gs')" by (cases "rand L gs")
  from assms have pos: "0 < RAND_MAX L" and "0 \<le> fst (rand L gs)"
    and "fst (rand L gs) \<le> RAND_MAX L"
    by (simp_all add: c_library_def)
  with dr have "0 \<le> x" "x \<le> RAND_MAX L" by simp_all
  with pos have "0 \<le> real_of_int x / real_of_int (RAND_MAX L)"
    and "real_of_int x / real_of_int (RAND_MAX L) \<le> 1"
    by simp_all
  with Suc.IH [of gs'] dr show ?case by simp
qed

lemma spheres_of_uniforms_bounds:
  "\<forall>u \<in> set us. 0 \<le> u \<and> u \<le> 1 \<Longrightarrow>
   \<forall>sph \<in> set (spheres_of_uniforms us).
     0 \<le> radius sph \<and> 0 \<le> r sph \<and> r sph \<le> 1 \<and> 0 \<le> g sph \<and> g sph \<le> 1
     \<and> 0 \<le> b sph \<and> b sph \<le> 1"
  by (induction us rule: spheres_of_uniforms.induct) simp_all

text \<open>
  Claim C9, as amended. With a C library that keeps to the standard (\<^verbatim>\<open>rand\<close> returns a value
  from 0 to \<^verbatim>\<open>RAND_MAX\<close>, both included), every sphere either generator produces has a
  radius of at least 0 and colour components in the closed interval from 0 to 1.
\<close>

theorem generated_sphere_bounds:
  assumes "c_library L" and "length spheres = num_spheres"
    and "sph \<in> set (fst (generate_spheres L spheres num_spheres)) \<or>
         sph \<in> set (fst (reworked_scene L num_spheres))"
  shows "0 \<le> radius sph \<and> 0 \<le> r sph \<and> r sph \<le> 1 \<and> 0 \<le> g sph \<and> g sph \<le> 1
         \<and> 0 \<le> b sph \<and> b sph \<le> 1"
proof -
  from assms(2,3) have "sph \<in> set (spec_scene L num_spheres)"
    by (auto simp: generate_spheres_spec reworked_scene_spec)
  then have "sph \<in> set (spheres_of_uniforms (uniforms L (srand L seed) (7 * num_spheres)))"
    by (simp add: spec_scene_def)
  with spheres_of_uniforms_bounds [OF uniforms_unit_interval [OF assms(1)]]
  show ?thesis by blast
qed

theorem generated_sphere_bounds_witness:
  "c_library lcg_rand \<and> length [unit_sphere] = 1 \<and>
   fst (generate_spheres lcg_rand [unit_sphere] 1) =
     [\<lparr>cx = 47450 / 32767, cy = - (171450 / 32767), cz = 46105 / 32767,
       radius = 614961 / 655340, r = 32237 / 32767, g = 2835 / 4681, b = 19525 / 32767\<rparr>] \<and>
   (0::real) \<le> 614961 / 655340 \<and> (0::real) \<le> 32237 / 32767 \<and> (32237::real) / 32767 \<le> 1"
proof -
  let ?s = "\<lparr>cx = 47450 / 32767, cy = - (171450 / 32767), cz = 46105 / 32767,
       radius = 614961 / 655340, r = 32237 / 32767, g = 2835 / 4681, b = 19525 / 32767\<rparr>"
  have len: "length [unit_sphere] = 1" by simp
  have gen: "fst (generate_spheres lcg_rand [unit_sphere] 1) = [?s]"
    using len by (simp add: generate_spheres_spec lcg_rand_first_sphere)
  then have "?s \<in> set (fst (generate_spheres lcg_rand [unit_sphere] 1)) \<or>
      ?s \<in> set (fst (reworked_scene lcg_rand 1))" by simp
  from generated_sphere_bounds [OF c_library_lcg_rand len this] gen c_library_lcg_rand
  show ?thesis by simp
qed

text \<open>
  The claim as first stated has the colour components below 1. A library may return
  \<^verbatim>\<open>RAND_MAX\<close>, and the macro divides by \<^verbatim>\<open>RAND_MAX\<close>: the uniform value is then 1, and so is
  the colour component drawn.
\<close>

theorem generated_color_reaches_one:
  "c_library max_rand \<and>
   fst (generate_spheres max_rand [unit_sphere] 1) =
     [\<lparr>cx = 10, cy = 10, cz = 15, radius = 33 / 20, r = 1, g = 1, b = 1\<rparr>] \<and>
   \<not> r (hd (fst (generate_spheres max_rand [unit_sphere] 1))) < 1"
proof -
  have "c_library max_rand" by (simp add: c_library_def max_rand_def)
  moreover have "fst (generate_spheres max_rand [unit_sphere] 1) =
     [\<lparr>cx = 10, cy = 10, cz = 15, radius = 33 / 20, r = 1, g = 1, b = 1\<rparr>]"
    by (simp add: generate_spheres_spec spec_scene_1 sphere_ctor_def rand_float_def max_rand_def)
  ultimately show ?thesis by simp
qed

section \<open>Scenes in front of the camera\<close>

text \<open>
  For spheres that lie in front of the rays' origins the first root is positive, each
  accepted hit tightens \<open>maxt\<close>, and the accepted distances of a scan never grow: the last
  accepted sphere is then a nearest one. The scenes of the generator are of this kind.
\<close>

lemma front_sphere_first_root:
  assumes cam: "camera_ray ry" and fr: "in_front sph"
    and res: "solve_quadratic (coeff_a ry) (coeff_b sph ry) (coeff_c sph ry) = Inr (Some (t0, t1))"
  shows "0 < t0"
proof -
  let ?R = "radius sph"
  let ?X = "ox ry - cx sph" and ?Y = "oy ry - cy sph"
  let ?d = "coeff_b sph ry * coeff_b sph ry - 4 * coeff_a ry * coeff_c sph ry"
  from cam have a: "coeff_a ry = 1" by (simp add: camera_ray_def coeff_a_def)
  from cam have bq: "coeff_b sph ry = - 2 * (10 + cz sph)"
    by (simp add: camera_ray_def coeff_b_def NEAR_def)
  from cam have d: "?d = 4 * (?R\<^sup>2 - ?X\<^sup>2 - ?Y\<^sup>2)"
    by (simp add: camera_ray_def coeff_a_def coeff_b_def coeff_c_def NEAR_def power2_eq_square
          algebra_simps)
  have "?d \<le> (2 * ?R)\<^sup>2"
  proof -
    have "0 \<le> ?X\<^sup>2" "0 \<le> ?Y\<^sup>2" by simp_all
    then have "?R\<^sup>2 - ?X\<^sup>2 - ?Y\<^sup>2 \<le> ?R\<^sup>2" by argo
    then have "4 * (?R\<^sup>2 - ?X\<^sup>2 - ?Y\<^sup>2) \<le> 4 * ?R\<^sup>2" by simp
    then show ?thesis unfolding d by (simp add: power2_eq_square)
  qed
  then have "sqrt ?d \<le> sqrt ((2 * ?R)\<^sup>2)" by (rule real_sqrt_le_mono)
  also have "\<dots> = \<bar>2 * ?R\<bar>" by (rule real_sqrt_abs)
  also have "\<dots> = 2 * ?R" using fr by (simp add: in_front_def)
  finally have s: "sqrt ?d \<le> 2 * ?R" .
  from solve_quadratic_Some(2) [OF res] a bq
  have "t0 = ((2 * (10 + cz sph)) - sqrt ?d) * (1 / 2)" by simp
  with s fr show ?thesis by (simp add: in_front_def)
qed

lemma front_sphere_tightens:
  assumes cam: "camera_ray ry" and fr: "in_front sph"
    and hit: "intersect_sphere sph ry = Inr (True, ry')"
  shows "maxt ry' \<le> maxt ry \<and> camera_ray ry'"
proof -
  have "coeff_a ry \<noteq> 0" using cam by (simp add: camera_ray_def coeff_a_def)
  from hit obtain t0 t1 where
    res: "solve_quadratic (coeff_a ry) (coeff_b sph ry) (coeff_c sph ry) = Inr (Some (t0, t1))"
    by (auto simp: intersect_sphere_coeffs split: sum.splits option.splits)
  from front_sphere_first_root [OF cam fr res] have "0 < t0" .
  with intersect_sphere_front_hit_tightens [OF hit res] have "maxt ry' \<le> maxt ry" by simp
  moreover from intersect_sphere_fields [OF hit] cam have "camera_ray ry'"
    by (simp add: camera_ray_def)
  ultimately show ?thesis by simp
qed

lemma front_scene_hits_bounded:
  "camera_ray ry \<Longrightarrow> \<forall>sph \<in> set spheres. in_front sph \<Longrightarrow>
   sorted_wrt (\<ge>) (map snd (scan_hits spheres k ry)) \<and>
   (\<forall>h \<in> set (scan_hits spheres k ry). snd h \<le> maxt ry)"
proof (induction spheres arbitrary: k ry)
  case Nil
  then show ?case by simp
next
  case (Cons sph rest)
  show ?case
  proof (cases "intersect_sphere sph ry")
    case (Inl e)
    then show ?thesis by simp
  next
    case (Inr res)
    obtain hit ry1 where res: "res = (hit, ry1)" by (cases res)
    show ?thesis
    proof (cases hit)
      case True
      from Inr res True have h: "intersect_sphere sph ry = Inr (True, ry1)" by simp
      from Cons.prems have "in_front sph" by simp
      from front_sphere_tightens [OF Cons.prems(1) this h]
      have le: "maxt ry1 \<le> maxt ry" and cam1: "camera_ray ry1" by simp_all
      from Cons.IH [OF cam1, of "Suc k"] Cons.prems(2)
      have IH: "sorted_wrt (\<ge>) (map snd (scan_hits rest (Suc k) ry1))"
        "\<forall>h \<in> set (scan_hits rest (Suc k) ry1). snd h \<le> maxt ry1" by simp_all
      with le h show ?thesis by fastforce
    next
      case False
      with Inr res have h: "intersect_sphere sph ry = Inr (False, ry1)" by simp
      from intersect_sphere_fields(7) [OF h] have "ry1 = ry" by simp
      with Cons.IH [OF Cons.prems(1), of "Suc k"] Cons.prems(2) h show ?thesis by simp
    qed
  qed
qed

lemma camera_ray_pixel_ray: "camera_ray (pixel_ray i j)"
  by (simp add: camera_ray_def pixel_ray_def)

lemma spheres_of_uniforms_in_front:
  "\<forall>u \<in> set us. 0 \<le> u \<and> u \<le> 1 \<Longrightarrow> \<forall>sph \<in> set (spheres_of_uniforms us). in_front sph"
  by (induction us rule: spheres_of_uniforms.induct) (simp_all add: in_front_def)

lemma generated_scene_hits_tighten:
  assumes "c_library L"
  shows "sorted_wrt (\<ge>) (map snd (scan_hits (spec_scene L n) 0 (pixel_ray i j))) \<and>
         (\<forall>h \<in> set (scan_hits (spec_scene L n) 0 (pixel_ray i j)). snd h \<le> FAR - NEAR)"
proof -
  have "\<forall>sph \<in> set (spec_scene L n). in_front sph"
    unfolding spec_scene_def
    by (rule spheres_of_uniforms_in_front) (rule uniforms_unit_interval [OF assms])
  moreover have "maxt (pixel_ray i j) = FAR - NEAR" by (simp add: pixel_ray_def)
  ultimately show ?thesis
    using front_scene_hits_bounded [of "pixel_ray i j" "spec_scene L n" 0]
    by (simp add: camera_ray_pixel_ray)
qed

section \<open>Single-precision arithmetic\<close>

subsection \<open>Rounding is odd and monotone\<close>

lemma rhe_of_int [simp]: "rhe (of_int n) = n"
  by (simp add: rhe_def)

lemma rhe_floor: "\<lfloor>q\<rfloor> \<le> rhe q" and rhe_floor1: "rhe q \<le> \<lfloor>q\<rfloor> + 1"
  by (simp_all add: rhe_def Let_def)

lemma rhe_mono:
  assumes "q \<le> q'"
  shows "rhe q \<le> rhe q'"
proof (cases "\<lfloor>q\<rfloor> = \<lfloor>q'\<rfloor>")
  case True
  with assms show ?thesis by (auto simp: rhe_def Let_def)
next
  case False
  with assms have "\<lfloor>q\<rfloor> < \<lfloor>q'\<rfloor>" using floor_mono [of q q'] by linarith
  then have "rhe q \<le> \<lfloor>q'\<rfloor>" using rhe_floor1 [of q] by linarith
  with rhe_floor [of q'] show ?thesis by linarith
qed

lemma rhe_minus: "rhe (- q) = - rhe q"
proof (cases "q = of_int \<lfloor>q\<rfloor>")
  case True
  then obtain n :: int where "q = of_int n" ..
  then have "- q = of_int (- n)" by simp
  then show ?thesis unfolding \<open>q = of_int n\<close> by (metis rhe_of_int)
next
  case False
  then have fl: "\<lfloor>- q\<rfloor> = - \<lfloor>q\<rfloor> - 1"
  proof -
    have "of_int (- \<lfloor>q\<rfloor> - 1) \<le> - q" "- q < of_int (- \<lfloor>q\<rfloor> - 1) + 1"
      using False of_int_floor_le [of q] floor_correct [of q] by (simp_all; linarith)+
    then show ?thesis by (simp add: floor_unique)
  qed
  have "of_int \<lfloor>q\<rfloor> < q" using False of_int_floor_le [of q] by linarith
  then show ?thesis
    unfolding rhe_def Let_def fl by (auto simp: algebra_simps)
qed

lemma floor_log2_bounds:
  assumes "0 < x"
  shows "2 powi \<lfloor>log 2 x\<rfloor> \<le> x" and "x < 2 powi (\<lfloor>log 2 x\<rfloor> + 1)"
proof -
  have eq: "2 powr real_of_int \<lfloor>log 2 x\<rfloor> = (2::real) powi \<lfloor>log 2 x\<rfloor>"
    "2 powr real_of_int (\<lfloor>log 2 x\<rfloor> + 1) = (2::real) powi (\<lfloor>log 2 x\<rfloor> + 1)"
    by (rule powr_real_of_int'; simp)+
  from floor_log_eq_powr_iff [of x 2 "\<lfloor>log 2 x\<rfloor>"] assms
  have "2 powr real_of_int \<lfloor>log 2 x\<rfloor> \<le> x \<and> x < 2 powr real_of_int (\<lfloor>log 2 x\<rfloor> + 1)"
    by (simp del: of_int_add)
  then show "2 powi \<lfloor>log 2 x\<rfloor> \<le> x" and "x < 2 powi (\<lfloor>log 2 x\<rfloor> + 1)"
    by (simp_all only: eq)
qed

lemma floor_log2_eqI:
  assumes "2 powi k \<le> x" and "x < 2 powi (k + 1)"
  shows "\<lfloor>log 2 x\<rfloor> = k"
proof -
  have "(0::real) < 2 powi k" by simp
  with assms(1) have "0 < x" by linarith
  have "2 powr real_of_int k = (2::real) powi k"
    and "2 powr real_of_int (k + 1) = (2::real) powi (k + 1)"
    by (rule powr_real_of_int'; simp)+
  with assms have "2 powr real_of_int k \<le> x \<and> x < 2 powr real_of_int (k + 1)"
    by (simp only:)
  with floor_log_eq_powr_iff [of x 2 k] \<open>0 < x\<close> show ?thesis by (simp del: of_int_add)
qed

lemma expo_minus [simp]: "expo (- x) = expo x"
  by (simp add: expo_def)

lemma quantum_minus [simp]: "quantum (- x) = quantum x"
  by (simp add: quantum_def)

lemma quantum_pos [simp]: "0 < quantum x"
  by (simp add: quantum_def)

lemma quantum_nonneg [simp]: "0 \<le> quantum x"
  by (simp add: quantum_def)

lemma rnd_minus: "rnd (- x) = - rnd x"
  by (simp add: rnd_def rhe_minus)

lemma expo_ge: "- 126 \<le> expo x"
  by (simp add: expo_def)

lemma expo_mono:
  assumes "0 < x" "x \<le> y"
  shows "expo x \<le> expo y"
proof -
  from assms have "log 2 x \<le> log 2 y" by simp
  then have "\<lfloor>log 2 x\<rfloor> \<le> \<lfloor>log 2 y\<rfloor>" by (rule floor_mono)
  with assms show ?thesis by (simp add: expo_def)
qed

lemma below_next_binade:
  assumes "0 < x"
  shows "x < 2 powi (expo x + 1)"
proof -
  have "\<lfloor>log 2 x\<rfloor> + 1 \<le> expo x + 1" using assms by (simp add: expo_def)
  then have "(2::real) powi (\<lfloor>log 2 x\<rfloor> + 1) \<le> 2 powi (expo x + 1)"
    by (rule power_int_increasing) simp
  with floor_log2_bounds(2) [OF assms] show ?thesis by linarith
qed

lemma above_binade:
  assumes "0 < x" "- 126 < expo x"
  shows "2 powi expo x \<le> x"
proof -
  from assms have "expo x = \<lfloor>log 2 x\<rfloor>" by (simp add: expo_def max_def split: if_splits)
  with floor_log2_bounds(1) [OF assms(1)] show ?thesis by simp
qed

lemma pow2_split: "(2::real) powi (e + 1) = 2 powi (e - 23) * 2 ^ 24"
proof -
  have "e + 1 = (e - 23) + 24" by simp
  then have "(2::real) powi (e + 1) = 2 powi ((e - 23) + 24)" by (simp only:)
  also have "\<dots> = 2 powi (e - 23) * 2 powi 24" by (rule power_int_add) simp
  finally show ?thesis by simp
qed

lemma pow2_split': "(2::real) powi e = 2 powi (e - 23) * 2 ^ 23"
proof -
  have "(2::real) powi e = 2 powi ((e - 23) + 23)" by simp
  also have "\<dots> = 2 powi (e - 23) * 2 powi 23" by (rule power_int_add) simp
  finally show ?thesis by simp
qed

lemma rnd_le_next_binade:
  assumes "0 < x"
  shows "rnd x \<le> 2 powi (expo x + 1)"
proof -
  have "x / quantum x < 2 ^ 24"
    using below_next_binade [OF assms] pow2_split [of "expo x"]
    by (simp add: quantum_def field_simps)
  then have "x / quantum x \<le> of_int (2 ^ 24)" by simp
  then have "rhe (x / quantum x) \<le> rhe (of_int (2 ^ 24))" by (rule rhe_mono)
  then have "rhe (x / quantum x) \<le> 2 ^ 24" by (simp only: rhe_of_int)
  then have "real_of_int (rhe (x / quantum x)) \<le> real_of_int (2 ^ 24)"
    by (simp only: of_int_le_iff)
  then have "real_of_int (rhe (x / quantum x)) \<le> 2 ^ 24" by simp
  then have "quantum x * real_of_int (rhe (x / quantum x)) \<le> quantum x * 2 ^ 24"
    by (intro mult_left_mono) simp_all
  with assms show ?thesis
    by (simp add: rnd_def quantum_def pow2_split [of "expo x"])
qed

lemma rnd_ge_binade:
  assumes "0 < x" "2 powi expo x \<le> x"
  shows "2 powi expo x \<le> rnd x"
proof -
  have "2 ^ 23 \<le> x / quantum x"
    using assms(2) pow2_split' [of "expo x"]
    by (simp add: quantum_def field_simps)
  then have "of_int (2 ^ 23) \<le> x / quantum x" by simp
  then have "rhe (of_int (2 ^ 23)) \<le> rhe (x / quantum x)" by (rule rhe_mono)
  then have "2 ^ 23 \<le> rhe (x / quantum x)" by (simp only: rhe_of_int)
  then have "real_of_int (2 ^ 23) \<le> real_of_int (rhe (x / quantum x))"
    by (simp only: of_int_le_iff)
  then have "2 ^ 23 \<le> real_of_int (rhe (x / quantum x))" by simp
  then have "quantum x * 2 ^ 23 \<le> quantum x * real_of_int (rhe (x / quantum x))"
    by (intro mult_left_mono) simp_all
  with assms show ?thesis
    by (simp add: rnd_def quantum_def pow2_split' [of "expo x"])
qed

lemma rnd_nonneg:
  assumes "0 \<le> x"
  shows "0 \<le> rnd x"
proof (cases "x = 0")
  case True
  then show ?thesis by (simp add: rnd_def)
next
  case False
  with assms have "0 \<le> x / quantum x" by (intro divide_nonneg_pos) simp_all
  then have "rhe (of_int 0) \<le> rhe (x / quantum x)" by (intro rhe_mono) simp
  then have "0 \<le> rhe (x / quantum x)" by (simp only: rhe_of_int)
  then show ?thesis by (simp add: rnd_def)
qed

lemma rnd_mono_pos:
  assumes "0 < x" "x \<le> y"
  shows "rnd x \<le> rnd y"
proof (cases "expo x = expo y")
  case True
  then have q: "quantum x = quantum y" by (simp add: quantum_def)
  from assms(2) have "x / quantum y \<le> y / quantum y"
    by (intro divide_right_mono) (simp_all add: less_imp_le)
  then have "rhe (x / quantum y) \<le> rhe (y / quantum y)" by (rule rhe_mono)
  then have "quantum y * real_of_int (rhe (x / quantum y))
      \<le> quantum y * real_of_int (rhe (y / quantum y))"
    by (intro mult_left_mono) simp_all
  with assms q show ?thesis by (simp add: rnd_def)
next
  case False
  from assms have ypos: "0 < y" by linarith
  from False expo_mono [OF assms] have lt: "expo x + 1 \<le> expo y" by linarith
  then have "- 126 < expo y" using expo_ge [of x] by linarith
  from above_binade [OF ypos this] have "2 powi expo y \<le> rnd y"
    by (rule rnd_ge_binade [OF ypos])
  moreover have "(2::real) powi (expo x + 1) \<le> 2 powi expo y"
    using lt by (rule power_int_increasing) simp
  moreover note rnd_le_next_binade [OF assms(1)]
  ultimately show ?thesis by linarith
qed

lemma rnd_0 [simp]: "rnd 0 = 0"
  by (simp add: rnd_def)

lemma rnd_mono:
  assumes "x \<le> y"
  shows "rnd x \<le> rnd y"
proof -
  consider (pos) "0 < x" | (neg) "y < 0" | (mid) "x \<le> 0" "0 \<le> y" by linarith
  then show ?thesis
  proof cases
    case pos
    then show ?thesis using assms by (rule rnd_mono_pos)
  next
    case neg
    with assms have "0 < - y" "- y \<le> - x" by simp_all
    then have "rnd (- y) \<le> rnd (- x)" by (rule rnd_mono_pos)
    then show ?thesis by (simp add: rnd_minus)
  next
    case mid
    from mid(1) have "0 \<le> rnd (- x)" by (intro rnd_nonneg) simp
    then have "rnd x \<le> 0" by (simp add: rnd_minus)
    with rnd_nonneg [OF mid(2)] show ?thesis by linarith
  qed
qed

subsection \<open>Values that rounding leaves as they are\<close>

text \<open>
  \<open>rnd_eval\<close> and \<open>rnd_tiny\<close> compute a rounding from the binade of the argument. A number
  \<open>n \<times> 2\<^sup>e\<close> with \<open>|n| < 2\<^sup>2\<^sup>4\<close> and \<open>e \<ge> - 149\<close> is a binary32 number.
\<close>

lemma rhe_numeral [simp]: "rhe (numeral n) = numeral n"
  using rhe_of_int [of "numeral n"] by simp

lemma rhe_0 [simp]: "rhe 0 = 0"
  using rhe_of_int [of 0] by simp

lemma rhe_1 [simp]: "rhe 1 = 1"
  using rhe_of_int [of 1] by simp

lemma expo_eqI:
  assumes "2 powi k \<le> \<bar>x\<bar>" "\<bar>x\<bar> < 2 powi (k + 1)"
  shows "expo x = max k (- 126)"
  using floor_log2_eqI [OF assms] by (simp add: expo_def)

lemma rnd_eval:
  assumes "2 powi k \<le> \<bar>x\<bar>" "\<bar>x\<bar> < 2 powi (k + 1)"
  shows "rnd x = 2 powi (max k (- 126) - 23) * of_int (rhe (x / 2 powi (max k (- 126) - 23)))"
proof -
  have "(0::real) < 2 powi k" by simp
  with assms(1) have "0 < \<bar>x\<bar>" by linarith
  then have "x \<noteq> 0" by simp
  then show ?thesis by (simp add: rnd_def quantum_def expo_eqI [OF assms])
qed

lemma rnd_tiny:
  assumes "\<bar>x\<bar> < 2 powi (- 126)"
  shows "rnd x = 2 powi (- 149) * of_int (rhe (x / 2 powi (- 149)))"
proof (cases "x = 0")
  case True
  then show ?thesis by simp
next
  case False
  then have pos: "0 < \<bar>x\<bar>" by simp
  have "\<lfloor>log 2 \<bar>x\<bar>\<rfloor> < - 126"
  proof (rule ccontr)
    assume "\<not> \<lfloor>log 2 \<bar>x\<bar>\<rfloor> < - 126"
    then have "(2::real) powi (- 126) \<le> 2 powi \<lfloor>log 2 \<bar>x\<bar>\<rfloor>"
      by (intro power_int_increasing) simp_all
    with floor_log2_bounds(1) [OF pos] assms show False by linarith
  qed
  then have "expo x = - 126" by (simp add: expo_def)
  with False show ?thesis by (simp add: rnd_def quantum_def)
qed

lemma rnd_exact:
  assumes n: "\<bar>n\<bar> < 2 ^ 24" and e: "- 149 \<le> e"
  shows "rnd (of_int n * 2 powi e) = of_int n * 2 powi e"
proof (cases "n = 0")
  case True
  then show ?thesis by simp
next
  case False
  define x where "x = real_of_int n * 2 powi e"
  have x0: "x \<noteq> 0" using False by (simp add: x_def)
  then have pos: "0 < \<bar>x\<bar>" by simp
  have "\<bar>x\<bar> = real_of_int \<bar>n\<bar> * 2 powi e" by (simp add: x_def abs_mult)
  also have "\<dots> < 2 ^ 24 * 2 powi e"
  proof (rule mult_strict_right_mono)
    from n have "real_of_int \<bar>n\<bar> < real_of_int (2 ^ 24)" by (simp only: of_int_less_iff)
    then show "real_of_int \<bar>n\<bar> < 2 ^ 24" by simp
  qed simp
  also have "\<dots> = 2 powi (e + 24)" by (simp add: power_int_add)
  finally have up: "\<bar>x\<bar> < 2 powi (e + 24)" .
  have "\<lfloor>log 2 \<bar>x\<bar>\<rfloor> < e + 24"
  proof (rule ccontr)
    assume "\<not> \<lfloor>log 2 \<bar>x\<bar>\<rfloor> < e + 24"
    then have "(2::real) powi (e + 24) \<le> 2 powi \<lfloor>log 2 \<bar>x\<bar>\<rfloor>"
      by (intro power_int_increasing) simp_all
    with floor_log2_bounds(1) [OF pos] up show False by linarith
  qed
  with e have le: "expo x - 23 \<le> e" by (simp add: expo_def)
  define m where "m = nat (e - (expo x - 23))"
  have split: "(2::real) powi e = quantum x * 2 ^ m"
  proof -
    have "(2::real) powi e = 2 powi ((expo x - 23) + int m)"
      using le by (simp add: m_def)
    also have "\<dots> = 2 powi (expo x - 23) * 2 powi (int m)"
      by (rule power_int_add) simp
    finally show ?thesis by (simp add: quantum_def)
  qed
  have "real_of_int n * 2 powi e = real_of_int n * (quantum x * 2 ^ m)"
    by (simp only: split)
  with x_def have xe: "x = real_of_int n * (quantum x * 2 ^ m)" by (rule trans)
  have qpos: "quantum x \<noteq> 0" using quantum_pos [of x] by linarith
  have "x / quantum x = real_of_int n * (quantum x * 2 ^ m) / quantum x"
    using xe by simp
  also have "\<dots> = real_of_int n * 2 ^ m" using qpos by simp
  also have "\<dots> = real_of_int (n * 2 ^ m)" by simp
  finally have q: "x / quantum x = real_of_int (n * 2 ^ m)" .
  have "rnd x = quantum x * real_of_int (rhe (x / quantum x))"
    using x0 by (simp only: rnd_def if_False)
  also have "\<dots> = quantum x * real_of_int (n * 2 ^ m)"
    by (simp only: q rhe_of_int)
  also have "\<dots> = real_of_int n * (quantum x * 2 ^ m)" by simp
  also have "\<dots> = x" using xe by simp
  finally show ?thesis by (simp only: x_def)
qed

lemma rnd_of_int: "\<bar>n\<bar> < 2 ^ 24 \<Longrightarrow> rnd (of_int n) = of_int n"
  using rnd_exact [of n 0] by simp

lemma rnd_numeral: "(numeral k :: int) < 16777216 \<Longrightarrow> rnd (numeral k) = numeral k"
  using rnd_of_int [of "numeral k"] by simp

lemma rnd_neg_numeral: "(numeral k :: int) < 16777216 \<Longrightarrow> rnd (- numeral k) = - numeral k"
  using rnd_of_int [of "- numeral k"] by simp

lemma rnd_1: "rnd 1 = 1"
  using rnd_of_int [of 1] by simp

lemma rnd_neg_1: "rnd (- 1) = - 1"
  using rnd_of_int [of "- 1"] by simp

subsection \<open>The operations on finite values\<close>

lemma pack_Fin: "rnd x = y \<Longrightarrow> y \<noteq> 0 \<Longrightarrow> \<bar>y\<bar> < 2 ^ 128 \<Longrightarrow> pack n x = Fin y"
  by (auto simp: pack_def Let_def)

lemma pack_0: "pack n 0 = (if n then NegZero else Fin 0)"
  by (simp add: pack_def)

lemma pack_float: "is_float x \<Longrightarrow> x \<noteq> 0 \<Longrightarrow> pack n x = Fin x"
  by (rule pack_Fin) (simp_all add: is_float_def)

lemma numeral_in_range:
  assumes "(numeral k :: int) < 16777216"
  shows "\<bar>numeral k :: real\<bar> < 2 ^ 128"
proof -
  from assms have "real_of_int (numeral k) < real_of_int 16777216"
    by (simp only: of_int_less_iff)
  then have "(numeral k :: real) < 16777216" by simp
  moreover have "(16777216::real) < 2 ^ 128" by simp
  ultimately have "(numeral k :: real) < 2 ^ 128" by (rule less_trans)
  then show ?thesis by (simp only: abs_numeral)
qed

lemma is_float_numeral: "(numeral k :: int) < 16777216 \<Longrightarrow> is_float (numeral k)"
  unfolding is_float_def by (simp only: rnd_numeral numeral_in_range simp_thms)

lemma is_float_neg_numeral: "(numeral k :: int) < 16777216 \<Longrightarrow> is_float (- numeral k)"
  unfolding is_float_def by (simp only: rnd_neg_numeral numeral_in_range abs_minus_cancel simp_thms)

lemma is_float_1: "is_float 1" "is_float (- 1)" "is_float 0"
  unfolding is_float_def by (simp_all add: rnd_1 rnd_neg_1)

lemma pack_numeral: "(numeral k :: int) < 16777216 \<Longrightarrow> pack n (numeral k) = Fin (numeral k)"
  by (rule pack_float) (simp_all add: is_float_numeral)

lemma pack_neg_numeral:
  "(numeral k :: int) < 16777216 \<Longrightarrow> pack n (- numeral k) = Fin (- numeral k)"
  by (rule pack_float) (simp_all add: is_float_neg_numeral)

lemma pack_1: "pack n 1 = Fin 1" "pack n (- 1) = Fin (- 1)"
  by (rule pack_float; simp add: is_float_1)+

lemmas pack_simps = pack_0 pack_numeral pack_neg_numeral pack_1

lemma fmul_Fin: "fmul (Fin x) (Fin y) = pack ((x < 0) \<noteq> (y < 0)) (x * y)"
  by (simp add: fmul_def)

lemma fadd_Fin: "fadd (Fin x) (Fin y) = pack False (x + y)"
  by simp

lemma fsub_Fin: "fsub (Fin x) (Fin y) = pack False (x - y)"
  by (simp add: fsub_def)

lemma fdiv_Fin: "y \<noteq> 0 \<Longrightarrow> fdiv (Fin x) (Fin y) = pack ((x < 0) \<noteq> (y < 0)) (x / y)"
  by (simp add: fdiv_def)

lemma f32_of_int_simps:
  "f32_of_int 0 = Fin 0" "f32_of_int 1 = Fin 1" "f32_of_int 2 = Fin 2" "f32_of_int 4 = Fin 4"
  by (simp_all add: f32_of_int_def pack_simps)

lemmas fin_ops = fmul_Fin fadd_Fin fsub_Fin fdiv_Fin f32_of_int_simps

lemma is_float_half: "is_float (1 / 2)"
  unfolding is_float_def using rnd_exact [of 1 "- 1"] by (simp add: power_int_minus)

subsection \<open>The operations keep the order\<close>

lemma pack_not_NaN [simp]: "pack n x \<noteq> NaN"
  by (simp add: pack_def Let_def)

lemma fle_PInf [simp]: "fle x PInf \<longleftrightarrow> x \<noteq> NaN"
  by (cases x) simp_all

lemma fle_NInf [simp]: "fle NInf y \<longleftrightarrow> y \<noteq> NaN"
  by (cases y) simp_all

lemma pack_mono: "x \<le> y \<Longrightarrow> fle (pack m x) (pack n y)"
  using rnd_mono [of x y] by (auto simp: pack_def Let_def)

lemma fsqrt_nonneg: "\<not> flt d (Fin 0) \<Longrightarrow> fsqrt d = NaN \<or> fle (Fin 0) (fsqrt d)"
  by (cases d) (simp_all add: rnd_nonneg)

lemma den_nonneg:
  assumes "flt (Fin 0) qa"
  shows "fle (Fin 0) (fdiv (Fin 1) (fmul (Fin 2) qa))"
proof (cases qa)
  case (Fin x)
  with assms have x: "0 < x" by simp
  then have r: "0 \<le> rnd (2 * x)" by (simp add: rnd_nonneg)
  have z: "Fin 0 = pack False 0" by (simp add: pack_def)
  have "fle (pack False 0) (pack False (1 / rnd (2 * x)))"
    by (rule pack_mono) (simp add: r)
  with x r show ?thesis
    unfolding Fin by (auto simp: fmul_def fdiv_def pack_def [of _ "2 * x"] Let_def z [symmetric])
qed (insert assms, simp_all add: fmul_def fdiv_def)

lemma numerators_ordered:
  assumes "fle (Fin 0) s" and "nb \<noteq> NaN"
  shows "fsub nb s = NaN \<or> fadd nb s = NaN \<or> fle (fsub nb s) (fadd nb s)"
  using assms by (cases nb; cases s) (simp_all add: fsub_def pack_mono)

lemma fmul_mono:
  assumes "fle n1 n2" and "fle (Fin 0) den"
  shows "fmul n1 den = NaN \<or> fmul n2 den = NaN \<or> fle (fmul n1 den) (fmul n2 den)"
  using assms
  by (cases n1; cases n2; cases den)
    (auto simp: fmul_def intro!: pack_mono mult_right_mono mult_nonneg_nonneg mult_nonpos_nonneg)

subsection \<open>The order of the computed roots\<close>

lemma fmul_NaN [simp]: "fmul NaN y = NaN" "fmul x NaN = NaN"
  by (simp_all add: fmul_def)

lemma fadd_NaN [simp]: "fadd x NaN = NaN"
  by (cases x) simp_all

lemma fsub_NaN [simp]: "fsub NaN y = NaN" "fsub x NaN = NaN"
  by (simp_all add: fsub_def)

lemma fneg_NaN [simp]: "fneg x = NaN \<longleftrightarrow> x = NaN"
  by (cases x) simp_all

lemma solve_quadratic32_Some:
  assumes "solve_quadratic32 qa qb qc = Some (x1, x2)"
  shows "\<not> flt (fsub (fmul qb qb) (fmul (fmul (Fin 4) qa) qc)) (Fin 0)"
    and "x1 = fmul (fsub (fneg qb) (fsqrt (fsub (fmul qb qb) (fmul (fmul (Fin 4) qa) qc))))
                (fdiv (Fin 1) (fmul (Fin 2) qa))"
    and "x2 = fmul (fadd (fneg qb) (fsqrt (fsub (fmul qb qb) (fmul (fmul (Fin 4) qa) qc))))
                (fdiv (Fin 1) (fmul (Fin 2) qa))"
  using assms by (auto simp: solve_quadratic32_def Let_def f32_of_int_simps split: if_splits)

lemma roots32_in_order:
  assumes a: "flt (Fin 0) qa" and res: "solve_quadratic32 qa qb qc = Some (x1, x2)"
    and n1: "x1 \<noteq> NaN" and n2: "x2 \<noteq> NaN"
  shows "fle x1 x2"
proof -
  let ?d = "fsub (fmul qb qb) (fmul (fmul (Fin 4) qa) qc)"
  let ?den = "fdiv (Fin 1) (fmul (Fin 2) qa)"
  note s = solve_quadratic32_Some [OF res]
  from n1 s(2) have m1: "fsub (fneg qb) (fsqrt ?d) \<noteq> NaN" by auto
  from n2 s(3) have m2: "fadd (fneg qb) (fsqrt ?d) \<noteq> NaN" by auto
  from m1 have sq: "fsqrt ?d \<noteq> NaN" by auto
  from m1 have nb: "fneg qb \<noteq> NaN" by auto
  from fsqrt_nonneg [OF s(1)] sq have "fle (Fin 0) (fsqrt ?d)" by simp
  from numerators_ordered [OF this nb] m1 m2
  have "fle (fsub (fneg qb) (fsqrt ?d)) (fadd (fneg qb) (fsqrt ?d))" by simp
  from fmul_mono [OF this den_nonneg [OF a]] n1 n2 s(2,3) show ?thesis by simp
qed

subsection \<open>The sign of a rounded difference\<close>

text \<open>
  Every rounded value is a multiple of \<open>2\<^sup>-\<^sup>1\<^sup>4\<^sup>9\<close>, so two rounded values that differ are
  at least that far apart, and their difference does not round to zero.
\<close>

lemma rnd_grid: "\<exists>n. rnd z = of_int n * 2 powi (- 149)"
proof (cases "z = 0")
  case True
  then have "rnd z = of_int 0 * 2 powi (- 149)" by simp
  then show ?thesis ..
next
  case False
  define m where "m = nat (expo z + 126)"
  have "(2::real) powi (expo z - 23) = 2 powi (- 149 + int m)"
    using expo_ge [of z] by (simp add: m_def)
  also have "\<dots> = 2 powi (- 149) * 2 powi (int m)" by (rule power_int_add) simp
  finally have q: "quantum z = 2 powi (- 149) * 2 ^ m" by (simp add: quantum_def)
  have "rnd z = quantum z * of_int (rhe (z / quantum z))" using False by (simp add: rnd_def)
  also have "\<dots> = of_int (rhe (z / quantum z) * 2 ^ m) * 2 powi (- 149)"
    by (simp add: q)
  finally show ?thesis ..
qed

lemma rnd_min_subnormal: "rnd (- (2 powi (- 149))) = - (2 powi (- 149))"
  using rnd_exact [of "- 1" "- 149"] by simp

lemma grid_gap:
  assumes "rnd u < rnd v"
  shows "rnd (rnd u - rnd v) \<le> - (2 powi (- 149))"
proof -
  obtain n where n: "rnd u = of_int n * 2 powi (- 149)" using rnd_grid by blast
  obtain k where k: "rnd v = of_int k * 2 powi (- 149)" using rnd_grid by blast
  have p: "(0::real) < 2 powi (- 149)" by simp
  from assms have "real_of_int n * 2 powi (- 149) < real_of_int k * 2 powi (- 149)"
    by (simp only: n k)
  with p have "real_of_int n < real_of_int k" by (simp only: mult_less_cancel_right_pos)
  then have "n - k \<le> - 1" by simp
  then have "real_of_int (n - k) \<le> real_of_int (- 1)" by (simp only: of_int_le_iff)
  then have "real_of_int (n - k) * 2 powi (- 149) \<le> real_of_int (- 1) * 2 powi (- 149)"
    using p by (simp only: mult_le_cancel_right_pos)
  then have "rnd u - rnd v \<le> - (2 powi (- 149))"
    by (simp add: n k algebra_simps)
  from rnd_mono [OF this] show ?thesis by (simp only: rnd_min_subnormal)
qed

lemma pack_negative:
  assumes "rnd z \<le> - (2 powi (- 149))"
  shows "flt (pack n z) (Fin 0)"
proof -
  have "(0::real) < 2 powi (- 149)" by simp
  with assms have "rnd z < 0" by linarith
  then show ?thesis by (auto simp: pack_def Let_def)
qed

lemma pack_shape:
  "pack n z = PInf \<or> pack n z = NInf \<or> pack n z = NegZero \<or> pack n z = Fin (rnd z)"
  by (auto simp: pack_def Let_def)

lemma fmul_shape:
  "fmul x y = NaN \<or> fmul x y = PInf \<or> fmul x y = NInf \<or> fmul x y = NegZero \<or>
   (\<exists>z. fmul x y = Fin (rnd z))"
  unfolding fmul_def using pack_shape [of "negative x \<noteq> negative y" "val x * val y"]
  by auto

lemma rounded_difference_negative:
  assumes "flt x y"
    and "x = PInf \<or> x = NInf \<or> x = NegZero \<or> (\<exists>z. x = Fin (rnd z))"
    and "y = PInf \<or> y = NInf \<or> y = NegZero \<or> (\<exists>z. y = Fin (rnd z))"
  shows "flt (fsub x y) (Fin 0)"
proof -
  have zero: "rnd 0 = 0" by simp
  have g0: "\<And>v. 0 < rnd v \<Longrightarrow> rnd (- rnd v) \<le> - (2 powi (- 149))"
    using grid_gap [of 0] by simp
  have g1: "\<And>u. rnd u < 0 \<Longrightarrow> rnd (rnd u) \<le> - (2 powi (- 149))"
    using grid_gap [of _ 0] by simp
  from assms show ?thesis
    by (elim disjE exE) (auto simp: fsub_def intro!: pack_negative grid_gap g0 g1)
qed

lemma computed_discriminant_negative:
  assumes "flt (fmul qb qb) (fmul (fmul (Fin 4) qa) qc)"
  shows "solve_quadratic32 qa qb qc = None"
proof -
  let ?x = "fmul qb qb" and ?y = "fmul (fmul (Fin 4) qa) qc"
  from assms have "?x \<noteq> NaN" "?y \<noteq> NaN" by (auto elim: flt.elims)
  with fmul_shape [of qb qb] fmul_shape [of "fmul (Fin 4) qa" qc]
  have "flt (fsub ?x ?y) (Fin 0)"
    by (intro rounded_difference_negative [OF assms]) simp_all
  then show ?thesis by (simp add: solve_quadratic32_def f32_of_int_simps)
qed

lemma is_float_dyadic:
  assumes n: "\<bar>n\<bar> < 2 ^ 24" and e: "- 149 \<le> e" "e \<le> 104"
  shows "is_float (of_int n * 2 powi e)"
proof -
  have "\<bar>real_of_int n * 2 powi e\<bar> = real_of_int \<bar>n\<bar> * 2 powi e" by (simp add: abs_mult)
  also have "\<dots> < 2 ^ 24 * 2 powi e"
  proof (rule mult_strict_right_mono)
    from n have "real_of_int \<bar>n\<bar> < real_of_int (2 ^ 24)" by (simp only: of_int_less_iff)
    then show "real_of_int \<bar>n\<bar> < 2 ^ 24" by simp
  qed simp
  also have "\<dots> \<le> 2 ^ 24 * 2 powi 104"
    using e(2) by (intro mult_left_mono power_int_increasing) simp_all
  also have "\<dots> = 2 ^ 128" by simp
  finally show ?thesis using rnd_exact [OF n e(1)] by (simp add: is_float_def)
qed

section \<open>The solver in single precision\<close>

lemma solve_quadratic32_roots:
  "solve_quadratic32 qa qb qc =
     (if flt (discriminant32 qa qb qc) (Fin 0) then None
      else Some (root_lo32 qa qb qc, root_hi32 qa qb qc))"
  by (simp add: solve_quadratic32_def discriminant32_def root_lo32_def root_hi32_def Let_def
        f32_of_int_simps)

lemma fsqrt_4: "fsqrt (Fin 4) = Fin 2"
  by (simp add: rnd_numeral)

lemma discriminant32_two_roots: "discriminant32 (Fin 1) (Fin (- 20)) (Fin 99) = Fin 4"
  by (simp add: discriminant32_def fin_ops pack_simps)

lemma solve_quadratic32_two_roots:
  "solve_quadratic32 (Fin 1) (Fin (- 20)) (Fin 99) = Some (Fin 9, Fin 11)"
  by (simp add: solve_quadratic32_roots discriminant32_two_roots root_lo32_def root_hi32_def
        fsqrt_4 fin_ops pack_simps pack_float is_float_half del: fsqrt.simps)

lemma solve_quadratic32_none:
  "flt (fmul (Fin 2) (Fin 2)) (fmul (fmul (Fin 4) (Fin 1)) (Fin 2))"
  "solve_quadratic32 (Fin 1) (Fin 2) (Fin 2) = None"
  by (simp_all add: solve_quadratic32_roots discriminant32_def fin_ops pack_simps)

text \<open>
  Claim C7, as amended. In single precision the solver decides on the rounded products: it
  reports roots when the computed discriminant \<open>fl (fl (b b) - fl (fl (4 a) c))\<close> is not
  negative. For a leading coefficient \<open>a > 0\<close>: when \<open>solve_quadratic\<close> reports roots, the
  computed discriminant is not negative, and the first root returned is at most the second
  unless one of the two is a NaN; and when the rounded products satisfy
  \<open>fl (b b) < fl (fl (4 a) c)\<close> it reports that there are no real roots.
\<close>

theorem solve_quadratic32_ordered:
  assumes "flt (Fin 0) qa"
  shows "(\<forall>x1 x2. solve_quadratic32 qa qb qc = Some (x1, x2) \<longrightarrow>
            \<not> flt (discriminant32 qa qb qc) (Fin 0) \<and>
            (x1 \<noteq> NaN \<and> x2 \<noteq> NaN \<longrightarrow> fle x1 x2)) \<and>
         (flt (fmul qb qb) (fmul (fmul (Fin 4) qa) qc) \<longrightarrow> solve_quadratic32 qa qb qc = None)"
proof (intro conjI allI impI)
  fix x1 x2
  assume res: "solve_quadratic32 qa qb qc = Some (x1, x2)"
  then show "\<not> flt (discriminant32 qa qb qc) (Fin 0)"
    by (simp add: solve_quadratic32_roots split: if_splits)
  assume "x1 \<noteq> NaN \<and> x2 \<noteq> NaN"
  with assms res show "fle x1 x2" by (simp add: roots32_in_order)
next
  assume "flt (fmul qb qb) (fmul (fmul (Fin 4) qa) qc)"
  then show "solve_quadratic32 qa qb qc = None" by (rule computed_discriminant_negative)
qed

theorem solve_quadratic32_ordered_witness:
  "flt (Fin 0) (Fin 1) \<and>
   solve_quadratic32 (Fin 1) (Fin (- 20)) (Fin 99) = Some (Fin 9, Fin 11) \<and>
   \<not> flt (discriminant32 (Fin 1) (Fin (- 20)) (Fin 99)) (Fin 0) \<and>
   Fin 9 \<noteq> NaN \<and> Fin 11 \<noteq> NaN \<and> fle (Fin 9) (Fin 11) \<and>
   flt (fmul (Fin 2) (Fin 2)) (fmul (fmul (Fin 4) (Fin 1)) (Fin 2)) \<and>
   solve_quadratic32 (Fin 1) (Fin 2) (Fin 2) = None"
proof -
  have pos: "flt (Fin 0) (Fin 1)" by simp
  note two = solve_quadratic32_two_roots
  from solve_quadratic32_ordered [OF pos, of "Fin (- 20)" "Fin 99", THEN conjunct1, THEN spec,
      THEN spec, of "Fin 9" "Fin 11", THEN mp, OF two]
  have one: "\<not> flt (discriminant32 (Fin 1) (Fin (- 20)) (Fin 99)) (Fin 0) \<and>
      (Fin 9 \<noteq> NaN \<and> Fin 11 \<noteq> NaN \<longrightarrow> fle (Fin 9) (Fin 11))" .
  from solve_quadratic32_ordered [OF pos, of "Fin 2" "Fin 2", THEN conjunct2, THEN mp,
      OF solve_quadratic32_none(1)]
  have none: "solve_quadratic32 (Fin 1) (Fin 2) (Fin 2) = None" .
  from pos two one none solve_quadratic32_none(1) show ?thesis by simp
qed

lemma pack_overflow: "2 ^ 128 \<le> rnd x \<Longrightarrow> pack n x = PInf"
  by (simp add: pack_def)

lemma is_float_0: "is_float 0"
  by (simp add: is_float_def)

lemma least_float_pos: "0 < least_float"
  by (simp add: least_float_def)

lemma is_float_tiny:
  "is_float least_float" "is_float (2 * least_float)" "is_float (4 * least_float)"
  using is_float_dyadic [of 1 "- 149"] is_float_dyadic [of 1 "- 148"]
    is_float_dyadic [of 1 "- 147"]
  by (simp_all add: power_int_minus least_float_def)

lemma rnd_huge: "rnd (2 ^ 148) = 2 ^ 148"
  using rnd_exact [of 1 148] by simp

lemma tiny_products:
  "fmul (Fin 4) (Fin least_float) = Fin (4 * least_float)"
  "fmul (Fin 2) (Fin least_float) = Fin (2 * least_float)"
  unfolding fmul_Fin using least_float_pos
  by (simp_all add: pack_float is_float_tiny)

lemma tiny_den: "fdiv (Fin 1) (Fin (2 * least_float)) = PInf"
proof -
  have e: "1 / (2 * least_float) = 2 ^ 148" by (simp add: least_float_def)
  have "(2::real) ^ 128 \<le> 2 ^ 148" by simp
  then have "(2::real) ^ 128 \<le> rnd (2 ^ 148)" by (simp only: rnd_huge)
  then have "pack False (1 / (2 * least_float)) = PInf"
    unfolding e by (rule pack_overflow)
  then show ?thesis using least_float_pos by (simp add: fdiv_def)
qed

lemma discriminant32_tiny: "discriminant32 (Fin least_float) (Fin 1) (Fin 0) = Fin 1"
proof -
  have m1: "fmul (Fin 1) (Fin 1) = Fin 1" by (simp add: fin_ops pack_simps)
  have m2: "fmul (Fin (4 * least_float)) (Fin 0) = Fin 0"
    using least_float_pos by (simp add: fmul_Fin pack_0)
  have "fsub (Fin 1) (Fin 0) = Fin 1" by (simp add: fsub_Fin pack_simps)
  then show ?thesis unfolding discriminant32_def tiny_products m1 m2 .
qed

lemma fsqrt_1: "fsqrt (Fin 1) = Fin 1"
  by (simp add: rnd_1)

lemma fsqrt_0: "fsqrt (Fin 0) = Fin 0"
  by simp

lemma solve_quadratic32_tiny:
  "solve_quadratic32 (Fin least_float) (Fin 1) (Fin 0) = Some (NInf, NaN)"
proof -
  have lo: "fsub (fneg (Fin 1)) (Fin 1) = Fin (- 2)"
    by (simp add: fin_ops pack_simps)
  have hi: "fadd (fneg (Fin 1)) (Fin 1) = Fin 0"
    by (simp add: fin_ops pack_simps)
  have inf: "fmul (Fin (- 2)) PInf = NInf" "fmul (Fin 0) PInf = NaN"
    by (simp_all add: fmul_def)
  show ?thesis
    unfolding solve_quadratic32_roots discriminant32_tiny root_lo32_def root_hi32_def
      fsqrt_1 lo hi tiny_products tiny_den inf by simp
qed

lemma is_float_close:
  "is_float close_b" "is_float close_c" "is_float (4 * close_c)" "is_float (- close_b)"
  "is_float (- close_b * (1 / 2))"
  using is_float_dyadic [of 2097777 "- 21"] is_float_dyadic [of 8393609 "- 25"]
    is_float_dyadic [of 8393609 "- 23"] is_float_dyadic [of "- 2097777" "- 21"]
    is_float_dyadic [of "- 2097777" "- 22"]
  by (simp_all add: power_int_minus close_b_def close_c_def)

lemma rnd_close: "rnd (close_b * close_b) = 4 * close_c"
  using rnd_eval [of 0 "close_b * close_b"]
  by (simp add: power_int_minus rhe_def close_b_def close_c_def)

lemma close_nonzero: "close_b \<noteq> 0" "close_c \<noteq> 0" "\<not> close_b < 0" "\<not> close_c < 0"
  by (simp_all add: close_b_def close_c_def)

lemma close_products:
  "fmul (Fin close_b) (Fin close_b) = Fin (4 * close_c)"
  "fmul (Fin 4) (Fin close_c) = Fin (4 * close_c)"
proof -
  have "\<bar>4 * close_c\<bar> < 2 ^ 128" using is_float_close(3) by (simp only: is_float_def)
  then show "fmul (Fin close_b) (Fin close_b) = Fin (4 * close_c)"
    unfolding fmul_Fin using close_nonzero by (intro pack_Fin [OF rnd_close]) simp_all
  show "fmul (Fin 4) (Fin close_c) = Fin (4 * close_c)"
    unfolding fmul_Fin using close_nonzero by (intro pack_float [OF is_float_close(3)]) simp
qed

lemma discriminant32_close:
  "discriminant32 (Fin 1) (Fin close_b) (Fin close_c) = Fin 0"
proof -
  have "fmul (Fin 4) (Fin 1) = Fin 4" by (simp add: fin_ops pack_simps)
  then show ?thesis
    by (simp add: discriminant32_def close_products fsub_Fin pack_0)
qed

lemma solve_quadratic32_close:
  "solve_quadratic32 (Fin 1) (Fin close_b) (Fin close_c) =
     Some (Fin (- close_b * (1 / 2)), Fin (- close_b * (1 / 2)))"
proof -
  have nb: "fneg (Fin close_b) = Fin (- close_b)" using close_nonzero by simp
  have lo: "fsub (Fin (- close_b)) (Fin 0) = Fin (- close_b)"
    unfolding fsub_Fin diff_0_right using close_nonzero
    by (intro pack_float [OF is_float_close(4)]) simp
  have hi: "fadd (Fin (- close_b)) (Fin 0) = Fin (- close_b)"
    unfolding fadd_Fin add_0_right using close_nonzero
    by (intro pack_float [OF is_float_close(4)]) simp
  have den: "fdiv (Fin 1) (fmul (Fin 2) (Fin 1)) = Fin (1 / 2)"
    by (simp add: fin_ops pack_simps pack_float is_float_half)
  have x: "fmul (Fin (- close_b)) (Fin (1 / 2)) = Fin (- close_b * (1 / 2))"
    unfolding fmul_Fin using close_nonzero
    by (intro pack_float [OF is_float_close(5)]) simp
  show ?thesis
    unfolding solve_quadratic32_roots discriminant32_close root_lo32_def root_hi32_def
      fsqrt_0 nb lo hi den x by simp
qed

lemma close_no_real_root: "close_b\<^sup>2 < 4 * 1 * close_c"
  by (simp add: power2_eq_square close_b_def close_c_def)

text \<open>
  The claim as first stated compares the exact values \<open>b\<^sup>2\<close> and \<open>4ac\<close> and has the roots in
  order whenever they are reported. With \<open>a\<close> the least positive number, \<open>b = 1\<close> and \<open>c = 0\<close>
  the discriminant is 1, \<open>1 / (2a)\<close> overflows to \<open>+\<infinity>\<close>, and the roots returned are
  \<open>-2 \<times> \<infinity> = -\<infinity>\<close> and \<open>0 \<times> \<infinity> = NaN\<close>, for which \<open>x1 \<le> x2\<close> is false. With \<open>a = 1\<close>,
  \<open>b = 2097777 / 2\<^sup>2\<^sup>1\<close> and \<open>c = 8393609 / 2\<^sup>2\<^sup>5\<close> the exact \<open>b\<^sup>2\<close> is less
  than \<open>4ac\<close>, the product \<open>b b\<close> rounds up to \<open>4ac\<close>, the computed discriminant is 0 and
  the solver reports the double root \<open>- b / 2\<close>.
\<close>

theorem solve_quadratic32_rounding:
  "is_float least_float \<and> flt (Fin 0) (Fin least_float) \<and>
   0 \<le> (1::real)\<^sup>2 - 4 * least_float * 0 \<and>
   solve_quadratic32 (Fin least_float) (Fin 1) (Fin 0) = Some (NInf, NaN) \<and>
   \<not> fle NInf NaN \<and>
   is_float close_b \<and> is_float close_c \<and> close_b\<^sup>2 < 4 * 1 * close_c \<and>
   solve_quadratic32 (Fin 1) (Fin close_b) (Fin close_c) =
     Some (Fin (- close_b * (1 / 2)), Fin (- close_b * (1 / 2)))"
  using is_float_tiny(1) is_float_close(1,2) solve_quadratic32_tiny solve_quadratic32_close
    close_no_real_root least_float_pos
  by simp

section \<open>The intersector in single precision\<close>

lemma intersect_sphere32_coeffs:
  "intersect_sphere32 sph ry =
     (case solve_quadratic32 (coeff_a32 ry) (coeff_b32 sph ry) (coeff_c32 sph ry) of
        None \<Rightarrow> (False, ry)
      | Some (t0, t1) \<Rightarrow>
          if fgt t0 (maxt32 ry) \<or> flt t1 (Fin 0) then (False, ry)
          else (True, ry\<lparr>maxt32 := (if fgt t0 (Fin 0) then t0 else t1)\<rparr>))"
  by (simp add: intersect_sphere32_def coeff_a32_def coeff_b32_def coeff_c32_def dot32_def
        direction32_def origin32_def Let_def f32_of_int_simps)

lemma intersect_sphere32_roots:
  "intersect_sphere32 sph ry =
     (if flt (ray_discriminant32 sph ry) (Fin 0) then (False, ry)
      else if fgt (ray_t0 sph ry) (maxt32 ry) \<or> flt (ray_t1 sph ry) (Fin 0) then (False, ry)
      else (True, ry\<lparr>maxt32 :=
              (if fgt (ray_t0 sph ry) (Fin 0) then ray_t0 sph ry else ray_t1 sph ry)\<rparr>))"
  by (simp add: intersect_sphere32_coeffs solve_quadratic32_roots ray_discriminant32_def
        ray_t0_def ray_t1_def)

lemma intersect_sphere32_fields:
  "ox32 (snd (intersect_sphere32 sph ry)) = ox32 ry"
  "oy32 (snd (intersect_sphere32 sph ry)) = oy32 ry"
  "oz32 (snd (intersect_sphere32 sph ry)) = oz32 ry"
  "dx32 (snd (intersect_sphere32 sph ry)) = dx32 ry"
  "dy32 (snd (intersect_sphere32 sph ry)) = dy32 ry"
  "dz32 (snd (intersect_sphere32 sph ry)) = dz32 ry"
  "\<not> fst (intersect_sphere32 sph ry) \<Longrightarrow> snd (intersect_sphere32 sph ry) = ry"
  by (auto simp: intersect_sphere32_roots)

text \<open>
  The test scenes hold binary32 numbers, and the coefficients of the quadratic for them
  come out as follows.
\<close>

lemma is_float_pixel_ray_00: "is_float_ray (pixel_ray 0 0)"
  using is_float_dyadic [of "- 10235" "- 10"]
  by (simp add: is_float_ray_def pixel_ray_00 is_float_numeral is_float_neg_numeral is_float_1
        power_int_minus)

lemma is_float_still_ray: "is_float_ray still_ray"
  by (simp add: is_float_ray_def still_ray_def is_float_numeral is_float_1)

lemma is_float_spheres:
  "is_float_sphere unit_sphere" "is_float_sphere near_sphere" "is_float_sphere missed_sphere"
  "is_float_sphere grazing_sphere"
  using is_float_dyadic [of "- 10235" "- 10"] is_float_dyadic [of "- 8187" "- 10"]
    is_float_dyadic [of "- 9211" "- 10"] is_float_dyadic [of 16777215 "- 24"]
  by (simp_all add: is_float_sphere_def unit_sphere_def near_sphere_def missed_sphere_def
        grazing_sphere_def is_float_1 power_int_minus)

lemma origin32_scenes:
  "origin32 (sphere32_of unit_sphere) (ray32_of still_ray) = (Fin 0, Fin 0, Fin 0)"
  "origin32 (sphere32_of near_sphere) (ray32_of (pixel_ray 0 0)) = (Fin 0, Fin 0, Fin (- 10))"
  "origin32 (sphere32_of missed_sphere) (ray32_of (pixel_ray 0 0)) =
     (Fin (- 2), Fin 0, Fin (- 10))"
  "origin32 (sphere32_of grazing_sphere) (ray32_of (pixel_ray 0 0)) =
     (Fin (- 1), Fin 0, Fin (- 10))"
  by (simp_all add: origin32_def sphere32_of_def ray32_of_def pixel_ray_00 still_ray_def
        unit_sphere_def near_sphere_def missed_sphere_def grazing_sphere_def fsub_Fin pack_simps)

lemma direction32_scenes:
  "direction32 (ray32_of still_ray) = (Fin 0, Fin 0, Fin 0)"
  "direction32 (ray32_of (pixel_ray 0 0)) = (Fin 0, Fin 0, Fin 1)"
  by (simp_all add: direction32_def ray32_of_def pixel_ray_00 still_ray_def)

lemma maxt32_scenes:
  "maxt32 (ray32_of still_ray) = Fin 20" "maxt32 (ray32_of (pixel_ray 0 0)) = Fin 20"
  by (simp_all add: ray32_of_def pixel_ray_00 still_ray_def)

lemma dot32_scenes:
  "dot32 (Fin 0, Fin 0, Fin 0) (Fin 0, Fin 0, Fin 0) = Fin 0"
  "dot32 (Fin 0, Fin 0, Fin 1) (Fin 0, Fin 0, Fin 1) = Fin 1"
  "dot32 (Fin 0, Fin 0, Fin (- 10)) (Fin 0, Fin 0, Fin 1) = Fin (- 10)"
  "dot32 (Fin (- 2), Fin 0, Fin (- 10)) (Fin 0, Fin 0, Fin 1) = Fin (- 10)"
  "dot32 (Fin (- 1), Fin 0, Fin (- 10)) (Fin 0, Fin 0, Fin 1) = Fin (- 10)"
  "dot32 (Fin 0, Fin 0, Fin (- 10)) (Fin 0, Fin 0, Fin (- 10)) = Fin 100"
  "dot32 (Fin (- 2), Fin 0, Fin (- 10)) (Fin (- 2), Fin 0, Fin (- 10)) = Fin 104"
  "dot32 (Fin (- 1), Fin 0, Fin (- 10)) (Fin (- 1), Fin 0, Fin (- 10)) = Fin 101"
  by (simp_all add: dot32_def fmul_Fin fadd_Fin pack_simps)

lemma coeff_a32_scenes:
  "coeff_a32 (ray32_of still_ray) = Fin 0" "coeff_a32 (ray32_of (pixel_ray 0 0)) = Fin 1"
  by (simp_all add: coeff_a32_def direction32_scenes dot32_scenes)

lemma coeff_b32_scenes:
  "coeff_b32 (sphere32_of unit_sphere) (ray32_of still_ray) = Fin 0"
  "coeff_b32 (sphere32_of near_sphere) (ray32_of (pixel_ray 0 0)) = Fin (- 20)"
  "coeff_b32 (sphere32_of missed_sphere) (ray32_of (pixel_ray 0 0)) = Fin (- 20)"
  "coeff_b32 (sphere32_of grazing_sphere) (ray32_of (pixel_ray 0 0)) = Fin (- 20)"
  by (simp_all add: coeff_b32_def origin32_scenes direction32_scenes dot32_scenes fmul_Fin
        pack_simps)

lemma radius32_scenes:
  "radius32 (sphere32_of unit_sphere) = Fin 1" "radius32 (sphere32_of near_sphere) = Fin 1"
  "radius32 (sphere32_of missed_sphere) = Fin 1"
  "radius32 (sphere32_of grazing_sphere) = Fin (16777215 / 16777216)"
  by (simp_all add: sphere32_of_def unit_sphere_def near_sphere_def missed_sphere_def
        grazing_sphere_def)

lemma rnd_radius_squared:
  "rnd (16777215 / 16777216 * (16777215 / 16777216)) = 8388607 / 8388608"
  using rnd_eval [of "- 1" "16777215 / 16777216 * (16777215 / 16777216)"]
  by (simp add: power_int_minus rhe_def)

lemma rnd_grazing_c: "rnd (101 - 8388607 / 8388608) = 100"
  using rnd_eval [of 6 "101 - 8388607 / 8388608"]
  by (simp add: power_int_minus rhe_def)

lemma grazing_radius_squared:
  "fmul (Fin (16777215 / 16777216)) (Fin (16777215 / 16777216)) = Fin (8388607 / 8388608)"
  unfolding fmul_Fin by (rule pack_Fin [OF rnd_radius_squared]) simp_all

lemma grazing_difference: "fsub (Fin 101) (Fin (8388607 / 8388608)) = Fin 100"
  unfolding fsub_Fin by (rule pack_Fin [OF rnd_grazing_c]) simp_all

lemma coeff_c32_scenes:
  "coeff_c32 (sphere32_of unit_sphere) (ray32_of still_ray) = Fin (- 1)"
  "coeff_c32 (sphere32_of near_sphere) (ray32_of (pixel_ray 0 0)) = Fin 99"
  "coeff_c32 (sphere32_of missed_sphere) (ray32_of (pixel_ray 0 0)) = Fin 103"
  "coeff_c32 (sphere32_of grazing_sphere) (ray32_of (pixel_ray 0 0)) = Fin 100"
  unfolding coeff_c32_def origin32_scenes dot32_scenes radius32_scenes grazing_radius_squared
    grazing_difference
  by (simp_all add: fmul_Fin fsub_Fin pack_simps)

lemma den_of_one: "fdiv (Fin 1) (fmul (Fin 2) (Fin 1)) = Fin (1 / 2)"
  by (simp add: fin_ops pack_simps pack_float is_float_half)

lemma near_sphere32_roots:
  "ray_discriminant32 (sphere32_of near_sphere) (ray32_of (pixel_ray 0 0)) = Fin 4"
  "ray_t0 (sphere32_of near_sphere) (ray32_of (pixel_ray 0 0)) = Fin 9"
  "ray_t1 (sphere32_of near_sphere) (ray32_of (pixel_ray 0 0)) = Fin 11"
  unfolding ray_discriminant32_def ray_t0_def ray_t1_def coeff_a32_scenes coeff_b32_scenes
    coeff_c32_scenes root_lo32_def root_hi32_def discriminant32_two_roots fsqrt_4 den_of_one
  by (simp_all add: fin_ops pack_simps)

lemma missed_sphere32_discriminant:
  "ray_discriminant32 (sphere32_of missed_sphere) (ray32_of (pixel_ray 0 0)) = Fin (- 12)"
  unfolding ray_discriminant32_def coeff_a32_scenes coeff_b32_scenes coeff_c32_scenes
    discriminant32_def
  by (simp add: fin_ops pack_simps)

lemma grazing_sphere32_roots:
  "ray_discriminant32 (sphere32_of grazing_sphere) (ray32_of (pixel_ray 0 0)) = Fin 0"
  "ray_t0 (sphere32_of grazing_sphere) (ray32_of (pixel_ray 0 0)) = Fin 10"
  "ray_t1 (sphere32_of grazing_sphere) (ray32_of (pixel_ray 0 0)) = Fin 10"
proof -
  have d: "discriminant32 (Fin 1) (Fin (- 20)) (Fin 100) = Fin 0"
    by (simp add: discriminant32_def fin_ops pack_simps)
  show "ray_discriminant32 (sphere32_of grazing_sphere) (ray32_of (pixel_ray 0 0)) = Fin 0"
    unfolding ray_discriminant32_def coeff_a32_scenes coeff_b32_scenes coeff_c32_scenes
    by (rule d)
  show "ray_t0 (sphere32_of grazing_sphere) (ray32_of (pixel_ray 0 0)) = Fin 10"
    "ray_t1 (sphere32_of grazing_sphere) (ray32_of (pixel_ray 0 0)) = Fin 10"
    unfolding ray_t0_def ray_t1_def coeff_a32_scenes coeff_b32_scenes coeff_c32_scenes
      root_lo32_def root_hi32_def d fsqrt_0 den_of_one
    by (simp_all add: fin_ops pack_simps)
qed

lemma still_ray32_roots:
  "ray_discriminant32 (sphere32_of unit_sphere) (ray32_of still_ray) = Fin 0"
  "ray_t0 (sphere32_of unit_sphere) (ray32_of still_ray) = NaN"
  "ray_t1 (sphere32_of unit_sphere) (ray32_of still_ray) = NaN"
proof -
  have d: "discriminant32 (Fin 0) (Fin 0) (Fin (- 1)) = Fin 0"
    by (simp add: discriminant32_def fmul_Fin fsub_def pack_simps)
  have den: "fdiv (Fin 1) (fmul (Fin 2) (Fin 0)) = PInf"
    by (simp add: fmul_Fin pack_simps fdiv_def)
  have lo: "fsub (fneg (Fin 0)) (Fin 0) = NegZero"
    by (simp add: fsub_def pack_simps)
  have hi: "fadd (fneg (Fin 0)) (Fin 0) = Fin 0"
    by (simp add: pack_simps)
  have inf: "fmul NegZero PInf = NaN" "fmul (Fin 0) PInf = NaN"
    by (simp_all add: fmul_def)
  show "ray_discriminant32 (sphere32_of unit_sphere) (ray32_of still_ray) = Fin 0"
    unfolding ray_discriminant32_def coeff_a32_scenes coeff_b32_scenes coeff_c32_scenes
    by (rule d)
  show "ray_t0 (sphere32_of unit_sphere) (ray32_of still_ray) = NaN"
    "ray_t1 (sphere32_of unit_sphere) (ray32_of still_ray) = NaN"
    unfolding ray_t0_def ray_t1_def coeff_a32_scenes coeff_b32_scenes coeff_c32_scenes
      root_lo32_def root_hi32_def d fsqrt_0 den lo hi inf
    by simp_all
qed

lemma near_sphere32_hit:
  "intersect_sphere32 (sphere32_of near_sphere) (ray32_of (pixel_ray 0 0)) =
     (True, (ray32_of (pixel_ray 0 0))\<lparr>maxt32 := Fin 9\<rparr>)"
  by (simp add: intersect_sphere32_roots near_sphere32_roots maxt32_scenes fgt_def)

lemma missed_sphere32_miss:
  "intersect_sphere32 (sphere32_of missed_sphere) (ray32_of (pixel_ray 0 0)) =
     (False, ray32_of (pixel_ray 0 0))"
  by (simp add: intersect_sphere32_roots missed_sphere32_discriminant)

lemma grazing_sphere32_hit:
  "intersect_sphere32 (sphere32_of grazing_sphere) (ray32_of (pixel_ray 0 0)) =
     (True, (ray32_of (pixel_ray 0 0))\<lparr>maxt32 := Fin 10\<rparr>)"
  by (simp add: intersect_sphere32_roots grazing_sphere32_roots maxt32_scenes fgt_def)

lemma still_ray32_hit:
  "intersect_sphere32 (sphere32_of unit_sphere) (ray32_of still_ray) =
     (True, (ray32_of still_ray)\<lparr>maxt32 := NaN\<rparr>)"
  by (simp add: intersect_sphere32_roots still_ray32_roots maxt32_scenes fgt_def)

text \<open>
  Claim C10. For every sphere and every ray, a call of \<open>intersect_sphere\<close>, whether it returns
  \<^verbatim>\<open>true\<close> or \<^verbatim>\<open>false\<close>, leaves the origin and the direction of the ray as they were: the ray
  it leaves differs from the ray it was given in \<open>maxt\<close> at most, and a call that returns
  \<^verbatim>\<open>false\<close> leaves the whole ray as it was. This holds also where the roots are NaN: on a
  ray with the zero vector for direction the call returns \<^verbatim>\<open>true\<close> and sets \<open>maxt\<close> to NaN.
\<close>

theorem intersect_sphere32_frame:
  "ox32 (snd (intersect_sphere32 sph ry)) = ox32 ry \<and>
   oy32 (snd (intersect_sphere32 sph ry)) = oy32 ry \<and>
   oz32 (snd (intersect_sphere32 sph ry)) = oz32 ry \<and>
   dx32 (snd (intersect_sphere32 sph ry)) = dx32 ry \<and>
   dy32 (snd (intersect_sphere32 sph ry)) = dy32 ry \<and>
   dz32 (snd (intersect_sphere32 sph ry)) = dz32 ry \<and>
   snd (intersect_sphere32 sph ry) = ry\<lparr>maxt32 := maxt32 (snd (intersect_sphere32 sph ry))\<rparr> \<and>
   (\<not> fst (intersect_sphere32 sph ry) \<longrightarrow> snd (intersect_sphere32 sph ry) = ry)"
proof -
  note f = intersect_sphere32_fields [of sph ry]
  have "snd (intersect_sphere32 sph ry) =
      ry\<lparr>maxt32 := maxt32 (snd (intersect_sphere32 sph ry))\<rparr>"
    by (rule ray32.equality) (simp_all add: f(1-6))
  with f show ?thesis by simp
qed

theorem intersect_sphere32_frame_witness:
  "\<not> fst (intersect_sphere32 (sphere32_of missed_sphere) (ray32_of (pixel_ray 0 0))) \<and>
   snd (intersect_sphere32 (sphere32_of missed_sphere) (ray32_of (pixel_ray 0 0))) =
     ray32_of (pixel_ray 0 0) \<and>
   fst (intersect_sphere32 (sphere32_of near_sphere) (ray32_of (pixel_ray 0 0))) \<and>
   oz32 (snd (intersect_sphere32 (sphere32_of near_sphere) (ray32_of (pixel_ray 0 0)))) =
     Fin (- 10) \<and>
   dz32 (snd (intersect_sphere32 (sphere32_of near_sphere) (ray32_of (pixel_ray 0 0)))) =
     Fin 1 \<and>
   maxt32 (snd (intersect_sphere32 (sphere32_of near_sphere) (ray32_of (pixel_ray 0 0)))) =
     Fin 9 \<and>
   fst (intersect_sphere32 (sphere32_of unit_sphere) (ray32_of still_ray)) \<and>
   snd (intersect_sphere32 (sphere32_of unit_sphere) (ray32_of still_ray)) =
     (ray32_of still_ray)\<lparr>maxt32 := NaN\<rparr> \<and>
   dz32 (snd (intersect_sphere32 (sphere32_of unit_sphere) (ray32_of still_ray))) = Fin 0"
proof -
  have miss: "\<not> fst (intersect_sphere32 (sphere32_of missed_sphere) (ray32_of (pixel_ray 0 0)))"
    by (simp add: missed_sphere32_miss)
  note m = intersect_sphere32_frame [of "sphere32_of missed_sphere" "ray32_of (pixel_ray 0 0)"]
  from m miss
  have "snd (intersect_sphere32 (sphere32_of missed_sphere) (ray32_of (pixel_ray 0 0))) =
      ray32_of (pixel_ray 0 0)" by blast
  moreover note n = intersect_sphere32_frame [of "sphere32_of near_sphere" "ray32_of (pixel_ray 0 0)"]
  from n have "oz32 (snd (intersect_sphere32 (sphere32_of near_sphere) (ray32_of (pixel_ray 0 0)))) =
      Fin (- 10)"
    "dz32 (snd (intersect_sphere32 (sphere32_of near_sphere) (ray32_of (pixel_ray 0 0)))) = Fin 1"
    by (simp_all add: ray32_of_def pixel_ray_00)
  moreover note s = intersect_sphere32_frame [of "sphere32_of unit_sphere" "ray32_of still_ray"]
  from s have "dz32 (snd (intersect_sphere32 (sphere32_of unit_sphere) (ray32_of still_ray))) = Fin 0"
    by (simp add: ray32_of_def still_ray_def)
  ultimately show ?thesis
    using miss by (simp add: near_sphere32_hit still_ray32_hit)
qed

text \<open>
  Claim C4, as amended. The intersector decides on the values it computes in single
  precision. With \<open>a = |direction|\<^sup>2\<close>, \<open>b = 2 (origin \<cdot> direction)\<close> and
  \<open>c = |origin|\<^sup>2 - radius\<^sup>2\<close> computed with every operation rounded (origin moved into the
  sphere's frame): when the computed discriminant is negative, \<open>intersect_sphere\<close> returns
  \<^verbatim>\<open>false\<close> and leaves the ray as it was; when it is not, with \<open>t0\<close> and \<open>t1\<close> the computed
  roots, the call returns \<^verbatim>\<open>false\<close> and leaves the ray as it was if \<open>t0 > maxt\<close> or \<open>t1 < 0\<close>,
  and otherwise returns \<^verbatim>\<open>true\<close> and sets \<open>maxt\<close> to \<open>t0\<close> if \<open>t0 > 0\<close> and to \<open>t1\<close> if not. A
  comparison with a NaN is false. The computed roots are in the order \<open>t0 \<le> t1\<close> when
  \<open>a > 0\<close> and neither is a NaN.
\<close>

theorem intersect_sphere32_cases:
  "(flt (ray_discriminant32 sph ry) (Fin 0) \<longrightarrow> intersect_sphere32 sph ry = (False, ry)) \<and>
   (\<not> flt (ray_discriminant32 sph ry) (Fin 0) \<longrightarrow>
      intersect_sphere32 sph ry =
        (if fgt (ray_t0 sph ry) (maxt32 ry) \<or> flt (ray_t1 sph ry) (Fin 0) then (False, ry)
         else (True, ry\<lparr>maxt32 :=
                 (if fgt (ray_t0 sph ry) (Fin 0) then ray_t0 sph ry else ray_t1 sph ry)\<rparr>)) \<and>
      (flt (Fin 0) (coeff_a32 ry) \<and> ray_t0 sph ry \<noteq> NaN \<and> ray_t1 sph ry \<noteq> NaN \<longrightarrow>
         fle (ray_t0 sph ry) (ray_t1 sph ry)))"
proof (intro conjI impI)
  assume "flt (ray_discriminant32 sph ry) (Fin 0)"
  then show "intersect_sphere32 sph ry = (False, ry)"
    by (simp add: intersect_sphere32_roots)
next
  assume "\<not> flt (ray_discriminant32 sph ry) (Fin 0)"
  then show "intersect_sphere32 sph ry =
        (if fgt (ray_t0 sph ry) (maxt32 ry) \<or> flt (ray_t1 sph ry) (Fin 0) then (False, ry)
         else (True, ry\<lparr>maxt32 :=
                 (if fgt (ray_t0 sph ry) (Fin 0) then ray_t0 sph ry else ray_t1 sph ry)\<rparr>))"
    by (simp add: intersect_sphere32_roots)
next
  assume d: "\<not> flt (ray_discriminant32 sph ry) (Fin 0)"
    and h: "flt (Fin 0) (coeff_a32 ry) \<and> ray_t0 sph ry \<noteq> NaN \<and> ray_t1 sph ry \<noteq> NaN"
  from d have "solve_quadratic32 (coeff_a32 ry) (coeff_b32 sph ry) (coeff_c32 sph ry) =
      Some (ray_t0 sph ry, ray_t1 sph ry)"
    by (simp add: solve_quadratic32_roots ray_discriminant32_def ray_t0_def ray_t1_def)
  with h show "fle (ray_t0 sph ry) (ray_t1 sph ry)"
    by (intro roots32_in_order [of "coeff_a32 ry"]) simp_all
qed

theorem intersect_sphere32_cases_witness:
  "flt (ray_discriminant32 (sphere32_of missed_sphere) (ray32_of (pixel_ray 0 0))) (Fin 0) \<and>
   intersect_sphere32 (sphere32_of missed_sphere) (ray32_of (pixel_ray 0 0)) =
     (False, ray32_of (pixel_ray 0 0)) \<and>
   \<not> flt (ray_discriminant32 (sphere32_of near_sphere) (ray32_of (pixel_ray 0 0))) (Fin 0) \<and>
   flt (Fin 0) (coeff_a32 (ray32_of (pixel_ray 0 0))) \<and>
   ray_t0 (sphere32_of near_sphere) (ray32_of (pixel_ray 0 0)) = Fin 9 \<and>
   ray_t1 (sphere32_of near_sphere) (ray32_of (pixel_ray 0 0)) = Fin 11 \<and>
   fle (ray_t0 (sphere32_of near_sphere) (ray32_of (pixel_ray 0 0)))
     (ray_t1 (sphere32_of near_sphere) (ray32_of (pixel_ray 0 0))) \<and>
   intersect_sphere32 (sphere32_of near_sphere) (ray32_of (pixel_ray 0 0)) =
     (True, (ray32_of (pixel_ray 0 0))\<lparr>maxt32 := Fin 9\<rparr>)"
proof -
  let ?ry = "ray32_of (pixel_ray 0 0)"
  have neg: "flt (ray_discriminant32 (sphere32_of missed_sphere) ?ry) (Fin 0)"
    by (simp add: missed_sphere32_discriminant)
  from intersect_sphere32_cases [of "sphere32_of missed_sphere" ?ry, THEN conjunct1, THEN mp,
      OF neg]
  have miss: "intersect_sphere32 (sphere32_of missed_sphere) ?ry = (False, ?ry)" .
  have pos: "\<not> flt (ray_discriminant32 (sphere32_of near_sphere) ?ry) (Fin 0)"
    by (simp add: near_sphere32_roots)
  note hit = intersect_sphere32_cases [of "sphere32_of near_sphere" ?ry, THEN conjunct2,
      THEN mp, OF pos]
  have a: "flt (Fin 0) (coeff_a32 ?ry)" by (simp add: coeff_a32_scenes)
  have nn: "flt (Fin 0) (coeff_a32 ?ry) \<and> ray_t0 (sphere32_of near_sphere) ?ry \<noteq> NaN \<and>
      ray_t1 (sphere32_of near_sphere) ?ry \<noteq> NaN"
    by (simp add: coeff_a32_scenes near_sphere32_roots)
  from hit [THEN conjunct2, THEN mp, OF nn]
  have ord: "fle (ray_t0 (sphere32_of near_sphere) ?ry) (ray_t1 (sphere32_of near_sphere) ?ry)" .
  from hit [THEN conjunct1]
  have res: "intersect_sphere32 (sphere32_of near_sphere) ?ry =
      (True, ?ry\<lparr>maxt32 := Fin 9\<rparr>)"
    by (simp add: near_sphere32_roots maxt32_scenes fgt_def)
  from neg miss pos a ord res show ?thesis by (simp add: near_sphere32_roots)
qed

text \<open>
  Two quadratics without a real root: the one of the ray with the zero vector for direction
  and the unit sphere, and the one of the ray of pixel \<open>(0, 0)\<close> and the grazing sphere.
\<close>

lemma still_ray_no_real_root:
  "coeff_a still_ray * t\<^sup>2 + coeff_b unit_sphere still_ray * t
     + coeff_c unit_sphere still_ray \<noteq> 0"
  by (simp add: coeff_a_def coeff_b_def coeff_c_def still_ray_def unit_sphere_def)

lemma grazing_no_real_root:
  "coeff_a (pixel_ray 0 0) * t\<^sup>2 + coeff_b grazing_sphere (pixel_ray 0 0) * t
     + coeff_c grazing_sphere (pixel_ray 0 0) \<noteq> 0"
proof (rule quadratic_no_root)
  show "coeff_a (pixel_ray 0 0) \<noteq> 0" by (simp add: coeff_a_def pixel_ray_00)
  show "coeff_b grazing_sphere (pixel_ray 0 0) * coeff_b grazing_sphere (pixel_ray 0 0)
      - 4 * coeff_a (pixel_ray 0 0) * coeff_c grazing_sphere (pixel_ray 0 0) < 0"
    by (simp add: coeff_a_def coeff_b_def coeff_c_def pixel_ray_00 grazing_sphere_def
        power2_eq_square)
qed

text \<open>
  The claim as first stated has the call return \<^verbatim>\<open>false\<close> whenever the quadratic has no real
  root. For the ray with the zero vector for direction and the unit sphere around its
  origin the coefficients are \<open>a = 0\<close>, \<open>b = 0\<close>, \<open>c = - 1\<close>: there is no real root, the
  computed discriminant is 0, both computed roots are \<open>0 \<times> \<infinity> = NaN\<close>, and the call returns
  \<^verbatim>\<open>true\<close> with \<open>maxt = NaN\<close>. For the ray of pixel \<open>(0, 0)\<close> and the grazing sphere \<open>a = 1\<close>
  and the exact discriminant \<open>b\<^sup>2 - 4ac\<close> is negative, so there is no real root; in single
  precision \<open>c\<close> is rounded from \<open>100 + 2\<^sup>-\<^sup>2\<^sup>3 - 2\<^sup>-\<^sup>4\<^sup>8\<close> to 100, the
  computed discriminant is 0, and the call returns \<^verbatim>\<open>true\<close> and takes \<open>maxt\<close> from 20 to 10.
\<close>

theorem intersect_sphere32_no_real_root:
  "is_float_ray still_ray \<and> is_float_sphere unit_sphere \<and>
   coeff_a still_ray = 0 \<and> coeff_b unit_sphere still_ray = 0 \<and>
   coeff_c unit_sphere still_ray = - 1 \<and>
   intersect_sphere32 (sphere32_of unit_sphere) (ray32_of still_ray) =
     (True, (ray32_of still_ray)\<lparr>maxt32 := NaN\<rparr>) \<and>
   is_float_ray (pixel_ray 0 0) \<and> is_float_sphere grazing_sphere \<and>
   coeff_a (pixel_ray 0 0) = 1 \<and>
   (coeff_b grazing_sphere (pixel_ray 0 0))\<^sup>2
     - 4 * coeff_a (pixel_ray 0 0) * coeff_c grazing_sphere (pixel_ray 0 0) < 0 \<and>
   intersect_sphere32 (sphere32_of grazing_sphere) (ray32_of (pixel_ray 0 0)) =
     (True, (ray32_of (pixel_ray 0 0))\<lparr>maxt32 := Fin 10\<rparr>)"
proof -
  have "coeff_a still_ray = 0" "coeff_b unit_sphere still_ray = 0"
    "coeff_c unit_sphere still_ray = - 1"
    by (simp_all add: coeff_a_def coeff_b_def coeff_c_def still_ray_def unit_sphere_def)
  moreover have "coeff_a (pixel_ray 0 0) = 1"
    by (simp add: coeff_a_def pixel_ray_00)
  moreover have "(coeff_b grazing_sphere (pixel_ray 0 0))\<^sup>2
     - 4 * coeff_a (pixel_ray 0 0) * coeff_c grazing_sphere (pixel_ray 0 0) < 0"
    by (simp add: coeff_a_def coeff_b_def coeff_c_def pixel_ray_00 grazing_sphere_def
        power2_eq_square)
  ultimately show ?thesis
    using is_float_still_ray is_float_spheres(1,4) is_float_pixel_ray_00 still_ray32_hit
      grazing_sphere32_hit
    by simp
qed

subsection \<open>The scenes of the scan in single precision\<close>

text \<open>
  On the spheres of the test scenes the binary32 function returns what the idealised one
  returns: the sphere in front is hit at 9, the spheres around the ray's origin take \<open>maxt\<close>
  to 15 and to 25, and the unit sphere at the world's origin is missed. The coefficients
  for the unit sphere are not binary32 numbers and are rounded, one of them at a tie.
\<close>

lemma origin32_scan_scenes:
  "origin32 (sphere32_of enclosing_sphere) (ray32_of (pixel_ray 0 0)) = (Fin 0, Fin 0, Fin 0)"
  "origin32 (sphere32_of wide_sphere) (ray32_of (pixel_ray 0 0)) = (Fin 0, Fin 0, Fin 0)"
  by (simp_all add: origin32_def sphere32_of_def ray32_of_def pixel_ray_00
        enclosing_sphere_def wide_sphere_def fsub_Fin pack_simps)

lemma dot32_zero_origin: "dot32 (Fin 0, Fin 0, Fin 0) (Fin 0, Fin 0, Fin 1) = Fin 0"
  by (simp add: dot32_def fmul_Fin fadd_Fin pack_simps)

lemma fsqrt_squares: "fsqrt (Fin 900) = Fin 30" "fsqrt (Fin 2500) = Fin 50"
  by (simp_all add: sqrt_900 sqrt_2500 rnd_numeral)

lemma centred_sphere32_roots:
  "discriminant32 (Fin 1) (Fin 0) (Fin (- 225)) = Fin 900"
  "root_lo32 (Fin 1) (Fin 0) (Fin (- 225)) = Fin (- 15)"
  "root_hi32 (Fin 1) (Fin 0) (Fin (- 225)) = Fin 15"
  "discriminant32 (Fin 1) (Fin 0) (Fin (- 625)) = Fin 2500"
  "root_lo32 (Fin 1) (Fin 0) (Fin (- 625)) = Fin (- 25)"
  "root_hi32 (Fin 1) (Fin 0) (Fin (- 625)) = Fin 25"
proof -
  show d: "discriminant32 (Fin 1) (Fin 0) (Fin (- 225)) = Fin 900"
    "discriminant32 (Fin 1) (Fin 0) (Fin (- 625)) = Fin 2500"
    by (simp_all add: discriminant32_def fin_ops pack_simps)
  have lo: "fsub (fneg (Fin 0)) (Fin 30) = Fin (- 30)" "fsub (fneg (Fin 0)) (Fin 50) = Fin (- 50)"
    by (simp_all add: fsub_def pack_simps)
  have hi: "fadd (fneg (Fin 0)) (Fin 30) = Fin 30" "fadd (fneg (Fin 0)) (Fin 50) = Fin 50"
    by (simp_all add: pack_simps)
  show "root_lo32 (Fin 1) (Fin 0) (Fin (- 225)) = Fin (- 15)"
    "root_hi32 (Fin 1) (Fin 0) (Fin (- 225)) = Fin 15"
    "root_lo32 (Fin 1) (Fin 0) (Fin (- 625)) = Fin (- 25)"
    "root_hi32 (Fin 1) (Fin 0) (Fin (- 625)) = Fin 25"
    unfolding root_lo32_def root_hi32_def d fsqrt_squares lo hi den_of_one
    by (simp_all add: fmul_Fin pack_simps)
qed

lemma centred_coeffs32:
  "coeff_b32 (sphere32_of enclosing_sphere) (ray32_of (pixel_ray 0 0)) = Fin 0"
  "coeff_c32 (sphere32_of enclosing_sphere) (ray32_of (pixel_ray 0 0)) = Fin (- 225)"
  "coeff_b32 (sphere32_of wide_sphere) (ray32_of (pixel_ray 0 0)) = Fin 0"
  "coeff_c32 (sphere32_of wide_sphere) (ray32_of (pixel_ray 0 0)) = Fin (- 625)"
  unfolding coeff_b32_def coeff_c32_def origin32_scan_scenes direction32_scenes
    dot32_zero_origin dot32_scenes
  by (simp_all add: sphere32_of_def enclosing_sphere_def wide_sphere_def fmul_Fin fsub_Fin
        pack_simps)

lemma enclosing_sphere32_hit:
  "intersect_sphere32 (sphere32_of enclosing_sphere) (ray32_of (pixel_ray 0 0)) =
     (True, (ray32_of (pixel_ray 0 0))\<lparr>maxt32 := Fin 15\<rparr>)"
  by (simp add: intersect_sphere32_roots ray_discriminant32_def ray_t0_def ray_t1_def
        coeff_a32_scenes centred_coeffs32 centred_sphere32_roots maxt32_scenes fgt_def)

lemma wide_sphere32_hit:
  "intersect_sphere32 (sphere32_of wide_sphere) (ray32_of (pixel_ray 0 0)) =
     (True, (ray32_of (pixel_ray 0 0))\<lparr>maxt32 := Fin 25\<rparr>)"
  by (simp add: intersect_sphere32_roots ray_discriminant32_def ray_t0_def ray_t1_def
        coeff_a32_scenes centred_coeffs32 centred_sphere32_roots maxt32_scenes fgt_def)

lemma rnd_offset_squared:
  "rnd (- (10235 / 1024) * - (10235 / 1024)) = 13094403 / 131072"
  using rnd_eval [of 6 "- (10235 / 1024) * - (10235 / 1024)"]
  by (simp add: power_int_minus rhe_def)

lemma rnd_offset_tie: "rnd (13094403 / 65536 + 100) = 4912001 / 16384"
  using rnd_eval [of 8 "13094403 / 65536 + 100"]
  by (simp add: power_int_minus rhe_def)


lemma is_float_offset:
  "is_float (- (10235 / 1024))" "is_float (13094403 / 65536)" "is_float (4895617 / 16384)"
  "is_float (4895617 / 4096)" "is_float (- (3257217 / 4096))"
  using is_float_dyadic [of "- 10235" "- 10"] is_float_dyadic [of 13094403 "- 16"]
    is_float_dyadic [of 4895617 "- 14"] is_float_dyadic [of 4895617 "- 12"]
    is_float_dyadic [of "- 3257217" "- 12"]
  by (simp_all add: power_int_minus)

lemma unit_sphere32_origin:
  "origin32 (sphere32_of unit_sphere) (ray32_of (pixel_ray 0 0)) =
     (Fin (- (10235 / 1024)), Fin (- (10235 / 1024)), Fin (- 10))"
proof -
  have "fsub (Fin (- (10235 / 1024))) (Fin 0) = Fin (- (10235 / 1024))"
    unfolding fsub_Fin diff_0_right by (rule pack_float [OF is_float_offset(1)]) simp
  moreover have "fsub (Fin (- 10)) (Fin 0) = Fin (- 10)"
    by (simp add: fsub_Fin pack_simps)
  ultimately show ?thesis
    by (simp add: origin32_def sphere32_of_def ray32_of_def pixel_ray_00 unit_sphere_def)
qed

lemma unit_sphere32_coeff_b:
  "coeff_b32 (sphere32_of unit_sphere) (ray32_of (pixel_ray 0 0)) = Fin (- 20)"
proof -
  have "fmul (Fin (- (10235 / 1024))) (Fin 0) = NegZero"
    by (simp add: fmul_Fin pack_0)
  moreover have "fadd NegZero NegZero = NegZero" by (simp add: pack_0)
  moreover have "fmul (Fin (- 10)) (Fin 1) = Fin (- 10)" by (simp add: fmul_Fin pack_simps)
  moreover have "fadd NegZero (Fin (- 10)) = Fin (- 10)" by (simp add: pack_simps)
  moreover have "fmul (Fin 2) (Fin (- 10)) = Fin (- 20)" by (simp add: fmul_Fin pack_simps)
  ultimately show ?thesis
    by (simp add: coeff_b32_def unit_sphere32_origin direction32_scenes dot32_def)
qed

lemma unit_sphere32_coeff_c:
  "coeff_c32 (sphere32_of unit_sphere) (ray32_of (pixel_ray 0 0)) = Fin (4895617 / 16384)"
proof -
  have sq: "fmul (Fin (- (10235 / 1024))) (Fin (- (10235 / 1024))) = Fin (13094403 / 131072)"
    unfolding fmul_Fin by (rule pack_Fin [OF rnd_offset_squared]) simp_all
  have e1: "13094403 / 131072 + 13094403 / 131072 = (13094403 / 65536 :: real)" by simp
  have s1: "fadd (Fin (13094403 / 131072)) (Fin (13094403 / 131072)) = Fin (13094403 / 65536)"
    unfolding fadd_Fin e1 by (rule pack_float [OF is_float_offset(2)]) simp
  have hundred: "fmul (Fin (- 10)) (Fin (- 10)) = Fin 100" by (simp add: fmul_Fin pack_simps)
  have s2: "fadd (Fin (13094403 / 65536)) (Fin 100) = Fin (4912001 / 16384)"
    unfolding fadd_Fin by (rule pack_Fin [OF rnd_offset_tie]) simp_all
  have one: "fmul (Fin 1) (Fin 1) = Fin 1" by (simp add: fmul_Fin pack_simps)
  have e2: "4912001 / 16384 - 1 = (4895617 / 16384 :: real)" by simp
  have s3: "fsub (Fin (4912001 / 16384)) (Fin 1) = Fin (4895617 / 16384)"
    unfolding fsub_Fin e2 by (rule pack_float [OF is_float_offset(3)]) simp
  show ?thesis
    unfolding coeff_c32_def unit_sphere32_origin dot32_def prod.case sq s1 hundred s2
      radius32_scenes one s3 ..
qed

lemma unit_sphere32_discriminant:
  "ray_discriminant32 (sphere32_of unit_sphere) (ray32_of (pixel_ray 0 0)) =
     Fin (- (3257217 / 4096))"
proof -
  have sq: "fmul (Fin (- 20)) (Fin (- 20)) = Fin 400" by (simp add: fmul_Fin pack_simps)
  have four: "fmul (Fin 4) (Fin 1) = Fin 4" by (simp add: fmul_Fin pack_simps)
  have e1: "4 * (4895617 / 16384) = (4895617 / 4096 :: real)" by simp
  have p: "fmul (Fin 4) (Fin (4895617 / 16384)) = Fin (4895617 / 4096)"
    unfolding fmul_Fin e1 by (rule pack_float [OF is_float_offset(4)]) simp
  have e2: "400 - 4895617 / 4096 = (- (3257217 / 4096) :: real)" by simp
  have d: "fsub (Fin 400) (Fin (4895617 / 4096)) = Fin (- (3257217 / 4096))"
    unfolding fsub_Fin e2 by (rule pack_float [OF is_float_offset(5)]) simp
  show ?thesis
    unfolding ray_discriminant32_def coeff_a32_scenes unit_sphere32_coeff_b
      unit_sphere32_coeff_c discriminant32_def sq four p d ..
qed

lemma unit_sphere32_miss:
  "intersect_sphere32 (sphere32_of unit_sphere) (ray32_of (pixel_ray 0 0)) =
     (False, ray32_of (pixel_ray 0 0))"
  by (simp add: intersect_sphere32_roots unit_sphere32_discriminant)


end
